theory Spec2Isabelle
  imports Complex_Main
begin

section \<open>The host: document, window and their effects\<close>

text \<open>
  \<^verbatim>\<open>main.js\<close> is one immediately invoked function that runs eleven independent
  initialisers against the browser's document. The embedding passes the browser state
  explicitly: a \<open>world\<close> holds the element store, the answers of the selector engine,
  the registered listeners, the intersection observers, the pending timers with a
  millisecond clock, and a trace of every effectful host call.

  Nodes are references into the store. Strings are lists of code units; a \<open>char\<close> is a
  code unit below 256.
\<close>

type_synonym node = nat

datatype css_value =
    CssNumber real
  | CssKeyword string
  | CssTranslate3dY real

text \<open>
  \<open>CssNumber p\<close> is the number \<open>p\<close> as \<^verbatim>\<open>setProperty\<close> receives it;
  \<open>CssTranslate3dY v\<close> is the string \<^verbatim>\<open>"translate3d(0," + v + "px,0)"\<close>. Numbers are
  reals: the rounding of IEEE doubles and the printing of a number are not modelled.
\<close>

record element =
  classList :: "string list"
  attrs :: "string \<rightharpoonup> string"
  ancestors :: "node list"
  textContent :: string
  hidden :: bool
  style :: "string \<rightharpoonup> css_value"

text \<open>
  The values of \<^verbatim>\<open>behavior\<close> in the options of \<^verbatim>\<open>scrollIntoView\<close>: \<^verbatim>\<open>"smooth"\<close>,
  \<^verbatim>\<open>"instant"\<close> and \<^verbatim>\<open>"auto"\<close>, which leaves the choice to the style sheet's
  \<^verbatim>\<open>scroll-behavior\<close>.
\<close>

datatype scroll_behavior = Smooth | Instant | Auto

datatype effect =
    ClassListAdd node string
  | ClassListRemove node string
  | SetAttribute node string string
  | RemoveAttribute node string
  | SetHidden node bool
  | SetTextContent node string
  | SetStyle node string css_value
  | PreventDefault
  | ScrollIntoView node scroll_behavior
  | ConsoleLog string

text \<open>
  The host calls that change something. \<open>ScrollIntoView n b\<close> is
  \<^verbatim>\<open>n.scrollIntoView({ behavior: b, block: "start" })\<close>. The source never calls
  \<^verbatim>\<open>console\<close>, so no function below emits \<open>ConsoleLog\<close>.
\<close>

datatype js_exception = SyntaxError | TypeError

datatype event_target = Window | Element node

datatype handler =
    ToggleClick node node
  | MobileLinkClick node node
  | AnchorClick node
  | NavbarUpdate node
  | Debounce handler nat
  | ParallaxFrame "node list" "node list"
  | RippleClick node
  | TiltMove node
  | TiltLeave node
  | MagneticMove node
  | MagneticLeave node

datatype observer = ActiveNavObserver | RevealObserver | TypingObserver | LazyObserver

datatype io_options = Threshold real | RootMargin string

record io_entry =
  target :: node
  isIntersecting :: bool

record typing_closure =
  el :: node
  fullText :: string
  charIndex :: nat

datatype timer_callback = TypeTimer | TypingDoneTimer

record world =
  queryAll :: "string \<Rightarrow> node list"
  byId :: "string \<Rightarrow> node option"
  selector_error :: "string \<Rightarrow> bool"
  reduced_motion :: bool
  scrollY :: real
  store :: "node \<Rightarrow> element"
  listeners :: "(event_target \<times> string \<times> handler) list"
  observers :: "observer \<rightharpoonup> io_options \<times> node list"
  typing :: "typing_closure option"
  timers :: "(nat \<times> timer_callback) list"
  now :: nat
  trace :: "effect list"

text \<open>
  \<open>queryAll w s\<close> is what \<^verbatim>\<open>document.querySelectorAll(s)\<close> returns at startup, \<open>byId\<close> is
  \<^verbatim>\<open>document.getElementById\<close>, and \<open>selector_error w s\<close> says that \<open>s\<close> is not a valid
  selector, so that a query with it throws. The selectors written in the source are
  valid, and their queries use \<open>querySelectorAll\<close> and \<open>querySelector\<close> below; the one
  query whose selector comes from the page (an anchor's \<^verbatim>\<open>href\<close>) uses
  \<open>querySelector_checked\<close>.
\<close>

definition querySelectorAll :: "world \<Rightarrow> string \<Rightarrow> node list" where
  "querySelectorAll w s = queryAll w s"

definition querySelector :: "world \<Rightarrow> string \<Rightarrow> node option" where
  "querySelector w s = (case queryAll w s of [] \<Rightarrow> None | n # _ \<Rightarrow> Some n)"

definition querySelector_checked :: "world \<Rightarrow> string \<Rightarrow> js_exception + node option" where
  "querySelector_checked w s =
     (if selector_error w s then Inl SyntaxError else Inr (querySelector w s))"

definition getElementById :: "world \<Rightarrow> string \<Rightarrow> node option" where
  "getElementById w i = byId w i"

text \<open>\<^verbatim>\<open>root.querySelectorAll(s)\<close>: the matches of \<open>s\<close> that lie below the node it is called on.\<close>

definition querySelectorAll_in :: "world \<Rightarrow> node \<Rightarrow> string \<Rightarrow> node list" where
  "querySelectorAll_in w scope s =
     filter (\<lambda>n. scope \<in> set (ancestors (store w n))) (queryAll w s)"

text \<open>\<^verbatim>\<open>n.closest(s)\<close>: the nearest of \<open>n\<close> and its ancestors that matches \<open>s\<close>.\<close>

definition closest :: "world \<Rightarrow> node \<Rightarrow> string \<Rightarrow> node option" where
  "closest w n s = find (\<lambda>a. a \<in> set (queryAll w s)) (n # ancestors (store w n))"

subsection \<open>Mutations of an element\<close>

definition modify :: "node \<Rightarrow> (element \<Rightarrow> element) \<Rightarrow> world \<Rightarrow> world" where
  "modify n f w = w\<lparr>store := (store w)(n := f (store w n))\<rparr>"

definition emit :: "effect \<Rightarrow> world \<Rightarrow> world" where
  "emit x w = w\<lparr>trace := trace w @ [x]\<rparr>"

definition has_class :: "world \<Rightarrow> node \<Rightarrow> string \<Rightarrow> bool" where
  "has_class w n c = (c \<in> set (classList (store w n)))"

definition classList_add :: "node \<Rightarrow> string \<Rightarrow> world \<Rightarrow> world" where
  "classList_add n c w =
     emit (ClassListAdd n c)
       (modify n (\<lambda>e. e\<lparr>classList :=
          (if c \<in> set (classList e) then classList e else classList e @ [c])\<rparr>) w)"

definition classList_remove :: "node \<Rightarrow> string \<Rightarrow> world \<Rightarrow> world" where
  "classList_remove n c w =
     emit (ClassListRemove n c)
       (modify n (\<lambda>e. e\<lparr>classList := filter (\<lambda>x. x \<noteq> c) (classList e)\<rparr>) w)"

text \<open>\<^verbatim>\<open>classList.toggle(c)\<close> removes a present token and adds an absent one.\<close>

definition classList_toggle :: "node \<Rightarrow> string \<Rightarrow> world \<Rightarrow> world" where
  "classList_toggle n c w =
     (if has_class w n c then classList_remove n c w else classList_add n c w)"

text \<open>\<^verbatim>\<open>classList.toggle(c, force)\<close> adds when \<open>force\<close> holds and removes otherwise.\<close>

definition classList_toggle_force :: "node \<Rightarrow> string \<Rightarrow> bool \<Rightarrow> world \<Rightarrow> world" where
  "classList_toggle_force n c force w =
     (if force then classList_add n c w else classList_remove n c w)"

definition getAttribute :: "world \<Rightarrow> node \<Rightarrow> string \<Rightarrow> string option" where
  "getAttribute w n a = attrs (store w n) a"

definition setAttribute :: "node \<Rightarrow> string \<Rightarrow> string \<Rightarrow> world \<Rightarrow> world" where
  "setAttribute n a v w =
     emit (SetAttribute n a v) (modify n (\<lambda>e. e\<lparr>attrs := (attrs e)(a \<mapsto> v)\<rparr>) w)"

definition removeAttribute :: "node \<Rightarrow> string \<Rightarrow> world \<Rightarrow> world" where
  "removeAttribute n a w =
     emit (RemoveAttribute n a) (modify n (\<lambda>e. e\<lparr>attrs := (attrs e)(a := None)\<rparr>) w)"

definition set_hidden :: "node \<Rightarrow> bool \<Rightarrow> world \<Rightarrow> world" where
  "set_hidden n b w = emit (SetHidden n b) (modify n (\<lambda>e. e\<lparr>hidden := b\<rparr>) w)"

definition set_textContent :: "node \<Rightarrow> string \<Rightarrow> world \<Rightarrow> world" where
  "set_textContent n s w =
     emit (SetTextContent n s) (modify n (\<lambda>e. e\<lparr>textContent := s\<rparr>) w)"

definition set_style :: "node \<Rightarrow> string \<Rightarrow> css_value \<Rightarrow> world \<Rightarrow> world" where
  "set_style n p v w =
     emit (SetStyle n p v) (modify n (\<lambda>e. e\<lparr>style := (style e)(p \<mapsto> v)\<rparr>) w)"

subsection \<open>Listeners, observers and timers\<close>

definition addEventListener :: "event_target \<Rightarrow> string \<Rightarrow> handler \<Rightarrow> world \<Rightarrow> world" where
  "addEventListener t ev h w = w\<lparr>listeners := listeners w @ [(t, ev, h)]\<rparr>"

text \<open>\<^verbatim>\<open>new IntersectionObserver(callback, options)\<close>: an observer with no target yet.\<close>

definition new_observer :: "observer \<Rightarrow> io_options \<Rightarrow> world \<Rightarrow> world" where
  "new_observer ob opts w = w\<lparr>observers := (observers w)(ob \<mapsto> (opts, []))\<rparr>"

definition observed :: "world \<Rightarrow> observer \<Rightarrow> node list" where
  "observed w ob = (case observers w ob of None \<Rightarrow> [] | Some (opts, ts) \<Rightarrow> ts)"

definition observe :: "observer \<Rightarrow> node \<Rightarrow> world \<Rightarrow> world" where
  "observe ob n w =
     (case observers w ob of
        None \<Rightarrow> w
      | Some (opts, ts) \<Rightarrow>
          w\<lparr>observers := (observers w)(ob \<mapsto> (opts, if n \<in> set ts then ts else ts @ [n]))\<rparr>)"

definition unobserve :: "observer \<Rightarrow> node \<Rightarrow> world \<Rightarrow> world" where
  "unobserve ob n w =
     (case observers w ob of
        None \<Rightarrow> w
      | Some (opts, ts) \<Rightarrow>
          w\<lparr>observers := (observers w)(ob \<mapsto> (opts, filter (\<lambda>x. x \<noteq> n) ts))\<rparr>)"

definition disconnect :: "observer \<Rightarrow> world \<Rightarrow> world" where
  "disconnect ob w =
     (case observers w ob of
        None \<Rightarrow> w
      | Some (opts, ts) \<Rightarrow> w\<lparr>observers := (observers w)(ob \<mapsto> (opts, []))\<rparr>)"

text \<open>
  The browser hands an observer's callback a batch of entries. A batch is never empty
  and reports only targets the observer watches when the batch is delivered.
\<close>

definition deliverable :: "world \<Rightarrow> observer \<Rightarrow> io_entry list \<Rightarrow> bool" where
  "deliverable w ob entries =
     (entries \<noteq> [] \<and> list_all (\<lambda>e. target e \<in> set (observed w ob)) entries)"

text \<open>
  An execution of one observer: the browser delivers batch after batch to the callback
  \<open>cb\<close>. The result is \<open>None\<close> when a batch is one the browser cannot deliver.
\<close>

fun run_batches ::
  "observer \<Rightarrow> (io_entry list \<Rightarrow> world \<Rightarrow> world) \<Rightarrow> io_entry list list \<Rightarrow> world \<Rightarrow> world option"
where
  "run_batches ob cb [] w = Some w"
| "run_batches ob cb (b # bs) w =
     (if deliverable w ob b then run_batches ob cb bs (cb b w) else None)"

text \<open>
  The targets that the batches of an execution report as intersecting, in the order
  of the reports; whether no batch reports a target as intersecting twice; and the
  host calls made between two worlds of an execution.
\<close>

definition reported :: "io_entry list list \<Rightarrow> node list" where
  "reported bs = map target (filter isIntersecting (concat bs))"

definition once_per_batch :: "io_entry list list \<Rightarrow> bool" where
  "once_per_batch bs = list_all (\<lambda>b. distinct (map target (filter isIntersecting b))) bs"

definition calls_since :: "world \<Rightarrow> world \<Rightarrow> effect list" where
  "calls_since w w' = drop (length (trace w)) (trace w')"

text \<open>\<^verbatim>\<open>setTimeout(cb, delay)\<close>: the callback becomes due \<open>delay\<close> milliseconds from now.\<close>

definition setTimeout :: "timer_callback \<Rightarrow> nat \<Rightarrow> world \<Rightarrow> world" where
  "setTimeout cb delay w = w\<lparr>timers := timers w @ [(now w + delay, cb)]\<rparr>"

text \<open>\<^verbatim>\<open>const motionOK = !window.matchMedia("(prefers-reduced-motion: reduce)").matches\<close>\<close>

definition motionOK :: "world \<Rightarrow> bool" where
  "motionOK w = (\<not> reduced_motion w)"

text \<open>\<^verbatim>\<open>NodeList.forEach(function (x) {...})\<close> and its form with the index.\<close>

definition forEach :: "(node \<Rightarrow> world \<Rightarrow> world) \<Rightarrow> node list \<Rightarrow> world \<Rightarrow> world" where
  "forEach f xs w = fold f xs w"

fun forEach_index :: "(node \<Rightarrow> nat \<Rightarrow> world \<Rightarrow> world) \<Rightarrow> node list \<Rightarrow> nat \<Rightarrow> world \<Rightarrow> world" where
  "forEach_index f [] i w = w"
| "forEach_index f (x # xs) i w = forEach_index f xs (Suc i) (f x i w)"

section \<open>0. Helpers\<close>

text \<open>\<^verbatim>\<open>function clamp(val, min, max) { return Math.max(min, Math.min(max, val)); }\<close>\<close>

definition clamp :: "real \<Rightarrow> real \<Rightarrow> real \<Rightarrow> real" where
  "clamp val mn mx = max mn (min mx val)"

section \<open>1. Mobile menu toggle\<close>

text \<open>\<^verbatim>\<open>String(b)\<close> for a boolean.\<close>

definition String_of_bool :: "bool \<Rightarrow> string" where
  "String_of_bool b = (if b then ''true'' else ''false'')"

text \<open>The click listener of the toggle control (lines 39 to 44).\<close>

definition toggle_click :: "node \<Rightarrow> node \<Rightarrow> world \<Rightarrow> world" where
  "toggle_click toggle menu w =
     (let isOpen = (getAttribute w toggle ''aria-expanded'' = Some ''true'');
          w1 = setAttribute toggle ''aria-expanded'' (String_of_bool (\<not> isOpen)) w;
          w2 = set_hidden menu isOpen w1
      in classList_toggle toggle ''is-active'' w2)"

text \<open>The click listener of each mobile link (lines 48 to 52).\<close>

definition mobile_link_click :: "node \<Rightarrow> node \<Rightarrow> world \<Rightarrow> world" where
  "mobile_link_click toggle menu w =
     (let w1 = setAttribute toggle ''aria-expanded'' ''false'' w;
          w2 = set_hidden menu True w1
      in classList_remove toggle ''is-active'' w2)"

definition initMobileMenu :: "world \<Rightarrow> world" where
  "initMobileMenu w =
     (case querySelector w ''.navbar__toggle'' of
        None \<Rightarrow> w
      | Some toggle \<Rightarrow>
          (case getElementById w ''mobile-menu'' of
             None \<Rightarrow> w
           | Some menu \<Rightarrow>
               forEach
                 (\<lambda>link. addEventListener (Element link) ''click'' (MobileLinkClick toggle menu))
                 (querySelectorAll_in w menu ''.navbar__mobile-link'')
                 (addEventListener (Element toggle) ''click'' (ToggleClick toggle menu) w)))"

section \<open>2. Smooth scrolling\<close>

text \<open>A string argument that is \<^verbatim>\<open>null\<close> reaches the host as the string \<^verbatim>\<open>"null"\<close>.\<close>

definition js_string :: "string option \<Rightarrow> string" where
  "js_string x = (case x of None \<Rightarrow> ''null'' | Some s \<Rightarrow> s)"

text \<open>
  The click listener of the in-page anchor \<open>anchor\<close> (lines 60 to 67); \<^verbatim>\<open>this\<close> is the
  anchor. A \<^verbatim>\<open>return\<close> leaves the world as it is; the exception of an invalid
  selector leaves the listener before \<^verbatim>\<open>preventDefault\<close>.
\<close>

definition anchor_click :: "node \<Rightarrow> world \<Rightarrow> js_exception + world" where
  "anchor_click anchor w =
     (let targetId = getAttribute w anchor ''href''
      in if targetId = Some ''#'' then Inr w
         else case querySelector_checked w (js_string targetId) of
                Inl ex \<Rightarrow> Inl ex
              | Inr None \<Rightarrow> Inr w
              | Inr (Some tgt) \<Rightarrow>
                  Inr (emit (ScrollIntoView tgt (if motionOK w then Smooth else Auto))
                        (emit PreventDefault w)))"

definition initSmoothScroll :: "world \<Rightarrow> world" where
  \<open>initSmoothScroll w =
     forEach (\<lambda>anchor. addEventListener (Element anchor) ''click'' (AnchorClick anchor))
       (querySelectorAll w ''a[href^="#"]'') w\<close>

section \<open>3. Active navigation link on scroll\<close>

text \<open>\<^verbatim>\<open>"#" + id\<close>, where a missing attribute reads as \<^verbatim>\<open>null\<close>.\<close>

definition hash_of :: "string option \<Rightarrow> string" where
  "hash_of i = ''#'' @ (case i of None \<Rightarrow> ''null'' | Some s \<Rightarrow> s)"

definition activeNav_entry :: "node list \<Rightarrow> io_entry \<Rightarrow> world \<Rightarrow> world" where
  "activeNav_entry navLinks entry w =
     (if isIntersecting entry then
        (let i = getAttribute w (target entry) ''id''
         in forEach
              (\<lambda>link v. classList_toggle_force link ''is-active''
                          (getAttribute v link ''href'' = Some (hash_of i)) v)
              navLinks w)
      else w)"

definition activeNav_callback :: "node list \<Rightarrow> io_entry list \<Rightarrow> world \<Rightarrow> world" where
  "activeNav_callback navLinks entries w = fold (activeNav_entry navLinks) entries w"

definition initActiveNav :: "world \<Rightarrow> world" where
  "initActiveNav w =
     (let sections = querySelectorAll w ''section[id]'';
          navLinks = querySelectorAll w ''.navbar__link''
      in if sections = [] \<or> navLinks = [] then w
         else forEach (\<lambda>sec. observe ActiveNavObserver sec) sections
                (new_observer ActiveNavObserver (RootMargin ''-40% 0px -55% 0px'') w))"

section \<open>4. Navbar scroll intensity\<close>

text \<open>The inner function \<^verbatim>\<open>update\<close> of \<^verbatim>\<open>initNavbarScroll\<close> (lines 106 to 113).\<close>

definition navbar_update :: "node \<Rightarrow> world \<Rightarrow> world" where
  "navbar_update navbar w =
     (let progress = clamp (scrollY w / 300) 0 1;
          w1 = set_style navbar ''--nav-scroll'' (CssNumber progress) w
      in classList_toggle_force navbar ''navbar--scrolled'' (scrollY w > 50) w1)"

definition initNavbarScroll :: "world \<Rightarrow> world" where
  "initNavbarScroll w =
     (case querySelector w ''.navbar'' of
        None \<Rightarrow> w
      | Some navbar \<Rightarrow>
          navbar_update navbar
            (addEventListener Window ''scroll'' (Debounce (NavbarUpdate navbar) 8) w))"

section \<open>5. Section reveal\<close>

text \<open>The body of the observer callback's loop (lines 135 to 138).\<close>

definition reveal_entry :: "io_entry \<Rightarrow> world \<Rightarrow> world" where
  "reveal_entry entry w =
     (if isIntersecting entry then
        unobserve RevealObserver (target entry)
          (classList_add (target entry) ''is-visible'' w)
      else w)"

definition reveal_callback :: "io_entry list \<Rightarrow> world \<Rightarrow> world" where
  "reveal_callback entries w = fold reveal_entry entries w"

definition initReveal :: "world \<Rightarrow> world" where
  "initReveal w =
     (if \<not> motionOK w then
        forEach (\<lambda>n. classList_add n ''is-visible'') (querySelectorAll w ''.animate-wrapper'') w
      else
        forEach (\<lambda>n. observe RevealObserver n) (querySelectorAll w ''.animate-wrapper'')
          (new_observer RevealObserver (Threshold 0.12) w))"

section \<open>6. Parallax background blobs\<close>

definition speeds :: "real list" where
  "speeds = [0.03, - 0.02, 0.015]"

text \<open>\<^verbatim>\<open>xs[i]\<close> is \<^verbatim>\<open>undefined\<close> beyond the end of the array.\<close>

definition js_index :: "'a list \<Rightarrow> nat \<Rightarrow> 'a option" where
  "js_index xs i = (if i < length xs then Some (xs ! i) else None)"

text \<open>\<^verbatim>\<open>x || d\<close> on numbers: \<^verbatim>\<open>d\<close> when \<^verbatim>\<open>x\<close> is \<^verbatim>\<open>undefined\<close> or zero.\<close>

definition js_or :: "real option \<Rightarrow> real \<Rightarrow> real" where
  "js_or x d = (case x of None \<Rightarrow> d | Some v \<Rightarrow> if v = 0 then d else v)"

text \<open>The inner function \<^verbatim>\<open>update\<close> of \<^verbatim>\<open>initParallax\<close> (lines 163 to 177).\<close>

definition parallax_update :: "node list \<Rightarrow> node list \<Rightarrow> world \<Rightarrow> world" where
  "parallax_update blobs bgGradients w =
     (let y = scrollY w;
          w1 = forEach_index
                 (\<lambda>blob i. set_style blob ''transform''
                              (CssTranslate3dY (y * js_or (js_index speeds i) 0.02)))
                 blobs 0 w
      in forEach_index
           (\<lambda>grad i. set_style grad ''transform''
                        (CssTranslate3dY (y * (if i = 0 then 0.018 else - 0.012))))
           bgGradients 0 w1)"

definition initParallax :: "world \<Rightarrow> world" where
  "initParallax w =
     (if \<not> motionOK w then w
      else
        (let blobs = querySelectorAll w ''.hero__blob'';
             bgGradients = querySelectorAll w ''.bg-layers__gradient''
         in if blobs = [] \<and> bgGradients = [] then w
            else addEventListener Window ''scroll'' (ParallaxFrame blobs bgGradients) w))"

section \<open>7. Typing effect for the hero tagline\<close>

text \<open>
  \<^verbatim>\<open>String.prototype.trim\<close> removes white space and line terminators from both ends.
  Among the code units below 256 these are U+0009 to U+000D, U+0020 and U+00A0.
\<close>

definition is_whitespace :: "char \<Rightarrow> bool" where
  "is_whitespace c =
     (c \<in> set [CHR 0x09, CHR 0x0A, CHR 0x0B, CHR 0x0C, CHR 0x0D, CHR 0x20, CHR 0xA0])"

definition trim :: "string \<Rightarrow> string" where
  "trim s = rev (dropWhile is_whitespace (rev (dropWhile is_whitespace s)))"

text \<open>
  The inner function \<^verbatim>\<open>type\<close> (lines 200 to 212). \<^verbatim>\<open>el\<close>, \<^verbatim>\<open>fullText\<close> and
  \<^verbatim>\<open>charIndex\<close> are the variables of the enclosing \<^verbatim>\<open>initTyping\<close>; no timer exists
  before \<^verbatim>\<open>initTyping\<close> has set them.
\<close>

definition type :: "world \<Rightarrow> world" where
  "type w =
     (case typing w of
        None \<Rightarrow> w
      | Some c \<Rightarrow>
          if charIndex c < length (fullText c) then
            (let w1 = set_textContent (el c)
                        (textContent (store w (el c)) @ [fullText c ! charIndex c]) w;
                 w2 = w1\<lparr>typing := Some (c\<lparr>charIndex := charIndex c + 1\<rparr>)\<rparr>
             in setTimeout TypeTimer 42 w2)
          else setTimeout TypingDoneTimer 2200 w)"

text \<open>The function passed to \<^verbatim>\<open>setTimeout\<close> in the other branch (lines 207 to 210).\<close>

definition typing_done :: "world \<Rightarrow> world" where
  "typing_done w =
     (case typing w of
        None \<Rightarrow> w
      | Some c \<Rightarrow>
          classList_add (el c) ''typing-done'' (classList_remove (el c) ''typing-active'' w))"

text \<open>
  The observer callback (lines 216 to 221). It reads \<^verbatim>\<open>entries[0]\<close>, which throws on an
  empty array; the browser delivers none.
\<close>

definition typing_callback :: "io_entry list \<Rightarrow> world \<Rightarrow> js_exception + world" where
  "typing_callback entries w =
     (case entries of
        [] \<Rightarrow> Inl TypeError
      | e # _ \<Rightarrow>
          if isIntersecting e then Inr (disconnect TypingObserver (setTimeout TypeTimer 600 w))
          else Inr w)"

definition initTyping :: "world \<Rightarrow> world" where
  "initTyping w =
     (if \<not> motionOK w then w
      else case querySelector w ''.hero__tagline'' of
             None \<Rightarrow> w
           | Some tagline \<Rightarrow>
               (let full = trim (textContent (store w tagline));
                    w1 = set_textContent tagline [] w;
                    w2 = classList_add tagline ''typing-active'' w1;
                    w3 = w2\<lparr>typing := Some \<lparr>el = tagline, fullText = full, charIndex = 0\<rparr>\<rparr>;
                    w4 = new_observer TypingObserver (Threshold 0.3) w3
                in observe TypingObserver
                     (case closest w4 tagline ''.hero'' of None \<Rightarrow> tagline | Some hero \<Rightarrow> hero)
                     w4))"

subsection \<open>The timer queue\<close>

text \<open>
  Timers fire in the order of their due times, and in the order of their registration
  among equal due times. The clock is ideal: a timer fires at the instant it is due.
\<close>

fun next_timer :: "(nat \<times> timer_callback) list \<Rightarrow> (nat \<times> timer_callback) option" where
  "next_timer [] = None"
| "next_timer (x # xs) =
     (case next_timer xs of
        None \<Rightarrow> Some x
      | Some y \<Rightarrow> if fst y < fst x then Some y else Some x)"

fun fire :: "timer_callback \<Rightarrow> world \<Rightarrow> world" where
  "fire TypeTimer w = type w"
| "fire TypingDoneTimer w = typing_done w"

text \<open>The next due timer leaves the queue, the clock moves to its due time, it runs.\<close>

definition fire_next :: "nat \<times> timer_callback \<Rightarrow> world \<Rightarrow> world" where
  "fire_next x w =
     fire (snd x) (w\<lparr>timers := remove1 x (timers w), now := max (now w) (fst x)\<rparr>)"

text \<open>
  Running the timer queue up to the time \<open>t\<close>. Every firing uses up pending work:
  a \<^verbatim>\<open>type\<close> timer either types one of the remaining characters or turns into the
  timer that ends the effect.
\<close>

fun timer_weight :: "nat \<times> timer_callback \<Rightarrow> nat" where
  "timer_weight (d, TypeTimer) = 2"
| "timer_weight (d, TypingDoneTimer) = 1"

definition pending_work :: "world \<Rightarrow> nat" where
  "pending_work w =
     sum_list (map timer_weight (timers w))
     + (case typing w of None \<Rightarrow> 0 | Some c \<Rightarrow> length (fullText c) - charIndex c)"

lemma next_timer_mem: "next_timer ts = Some x \<Longrightarrow> x \<in> set ts"
  by (induction ts arbitrary: x) (auto split: option.splits if_splits)

lemma weight_remove1:
  "x \<in> set ts \<Longrightarrow> sum_list (map timer_weight (remove1 x ts)) + timer_weight x = sum_list (map timer_weight ts)"
  by (induction ts) auto

lemma timers_emit [simp]: "timers (emit x w) = timers w" by (simp add: emit_def)
lemma typing_emit [simp]: "typing (emit x w) = typing w" by (simp add: emit_def)
lemma now_emit [simp]: "now (emit x w) = now w" by (simp add: emit_def)
lemma timers_modify [simp]: "timers (modify n f w) = timers w" by (simp add: modify_def)
lemma typing_modify [simp]: "typing (modify n f w) = typing w" by (simp add: modify_def)
lemma now_modify [simp]: "now (modify n f w) = now w" by (simp add: modify_def)

lemma pending_work_fire_next:
  assumes "x \<in> set (timers w)"
  shows "pending_work (fire_next x w) < pending_work w"
proof -
  obtain d cb where x: "x = (d, cb)" by (cases x)
  from weight_remove1 [OF assms]
  have eq: "sum_list (map timer_weight (timers w)) = sum_list (map timer_weight (remove1 x (timers w))) + timer_weight x"
    by simp
  show ?thesis
  proof (cases cb)
    case TypeTimer
    then show ?thesis
      using eq x
      by (auto simp: pending_work_def fire_next_def type_def setTimeout_def Let_def
            set_textContent_def split: option.splits)
  next
    case TypingDoneTimer
    then show ?thesis
      using eq x
      by (auto simp: pending_work_def fire_next_def typing_done_def classList_add_def
            classList_remove_def split: option.splits)
  qed
qed

function advance :: "nat \<Rightarrow> world \<Rightarrow> world" where
  "advance t w =
     (case next_timer (timers w) of
        None \<Rightarrow> w\<lparr>now := max (now w) t\<rparr>
      | Some x \<Rightarrow>
          if fst x \<le> t then advance t (fire_next x w) else w\<lparr>now := max (now w) t\<rparr>)"
  by pat_completeness auto
termination
  by (relation "measure (\<lambda>(t, w). pending_work w)")
    (auto intro: pending_work_fire_next next_timer_mem)

text \<open>
  What the browser does with the typing effect: time passes, or the observer reports a
  batch. A report the browser cannot deliver, or one on which the callback throws, ends
  the run with \<open>None\<close>.
\<close>

datatype typing_event = Wait nat | Report "io_entry list"

fun typing_run :: "typing_event list \<Rightarrow> world \<Rightarrow> world option" where
  "typing_run [] w = Some w"
| "typing_run (Wait d # es) w = typing_run es (advance (now w + d) w)"
| "typing_run (Report b # es) w =
     (if deliverable w TypingObserver b then
        (case typing_callback b w of Inl ex \<Rightarrow> None | Inr v \<Rightarrow> typing_run es v)
      else None)"

text \<open>The test of the callback: \<^verbatim>\<open>entries[0].isIntersecting\<close>.\<close>

definition first_intersecting :: "io_entry list \<Rightarrow> bool" where
  "first_intersecting b = (case b of [] \<Rightarrow> False | e # _ \<Rightarrow> isIntersecting e)"

text \<open>A stretch of events in which no report passes that test.\<close>

fun quiet :: "typing_event list \<Rightarrow> bool" where
  "quiet [] = True"
| "quiet (Wait d # es) = quiet es"
| "quiet (Report b # es) = (\<not> first_intersecting b \<and> quiet es)"

definition text_of :: "world \<Rightarrow> node \<Rightarrow> string" where
  "text_of w n = textContent (store w n)"

section \<open>8. Button ripple effect\<close>

definition initRipple :: "world \<Rightarrow> world" where
  "initRipple w =
     (if \<not> motionOK w then w
      else forEach
             (\<lambda>btn v.
                addEventListener (Element btn) ''click'' (RippleClick btn)
                  (set_style btn ''overflow'' (CssKeyword ''hidden'')
                    (set_style btn ''position'' (CssKeyword ''relative'') v)))
             (querySelectorAll w ''.hero__btn, .contact__submit'') w)"

section \<open>9. Card tilt effect\<close>

definition initTilt :: "world \<Rightarrow> world" where
  "initTilt w =
     (if \<not> motionOK w then w
      else forEach
             (\<lambda>card v.
                addEventListener (Element card) ''mouseleave'' (TiltLeave card)
                  (addEventListener (Element card) ''mousemove'' (TiltMove card) v))
             (querySelectorAll w ''.project-card'') w)"

section \<open>10. Magnetic hover\<close>

definition initMagnetic :: "world \<Rightarrow> world" where
  "initMagnetic w =
     (if \<not> motionOK w then w
      else forEach
             (\<lambda>n v.
                addEventListener (Element n) ''mouseleave'' (MagneticLeave n)
                  (addEventListener (Element n) ''mousemove'' (MagneticMove n) v))
             (querySelectorAll w ''.project-card__link, .footer__social-link, .navbar__link'') w)"

section \<open>11. Lazy loading of project images\<close>

text \<open>
  \<^verbatim>\<open>img.dataset.src\<close>: the value of the attribute \<^verbatim>\<open>data-src\<close>. Without the attribute it
  is \<^verbatim>\<open>undefined\<close>, which an assignment to \<^verbatim>\<open>img.src\<close> stores as the string
  \<^verbatim>\<open>"undefined"\<close>.
\<close>

definition dataset_src :: "world \<Rightarrow> node \<Rightarrow> string" where
  "dataset_src w img =
     (case getAttribute w img ''data-src'' of None \<Rightarrow> ''undefined'' | Some v \<Rightarrow> v)"

text \<open>
  The body of the observer callback's loop (lines 333 to 338). The property
  \<^verbatim>\<open>img.src\<close> reflects the attribute \<^verbatim>\<open>src\<close>.
\<close>

definition lazy_entry :: "io_entry \<Rightarrow> world \<Rightarrow> world" where
  "lazy_entry entry w =
     (if isIntersecting entry then
        (let img = target entry;
             w1 = setAttribute img ''src'' (dataset_src w img) w;
             w2 = removeAttribute img ''data-src'' w1
         in unobserve LazyObserver img w2)
      else w)"

text \<open>An image after its load: \<^verbatim>\<open>src\<close> set from \<^verbatim>\<open>data-src\<close>, \<^verbatim>\<open>data-src\<close> removed.\<close>

definition loaded :: "world \<Rightarrow> node \<Rightarrow> element" where
  "loaded w n =
     (store w n)\<lparr>attrs := (attrs (store w n))(''src'' \<mapsto> dataset_src w n, ''data-src'' := None)\<rparr>"

definition lazy_callback :: "io_entry list \<Rightarrow> world \<Rightarrow> world" where
  "lazy_callback entries w = fold lazy_entry entries w"

definition initLazyImages :: "world \<Rightarrow> world" where
  "initLazyImages w =
     (let images = querySelectorAll w ''.project-card__image[data-src]''
      in if images = [] then w
         else forEach (\<lambda>img. observe LazyObserver img) images
                (new_observer LazyObserver (RootMargin ''200px'') w))"

section \<open>The whole script\<close>

definition main :: "world \<Rightarrow> world" where
  "main w =
     initLazyImages (initMagnetic (initTilt (initRipple (initTyping (initParallax
       (initReveal (initNavbarScroll (initActiveNav (initSmoothScroll
         (initMobileMenu w))))))))))"

text \<open>
  What "nothing happened" means between two worlds: no element changed, no host call
  was made (so nothing was logged), no listener and no timer was registered, and no
  observer watches anything it did not watch before.
\<close>

definition silent_no_op :: "world \<Rightarrow> world \<Rightarrow> bool" where
  "silent_no_op w w' =
     (store w' = store w \<and> trace w' = trace w \<and> listeners w' = listeners w
      \<and> timers w' = timers w \<and> typing w' = typing w
      \<and> list_all (\<lambda>ob. set (observed w' ob) \<subseteq> set (observed w ob))
            [ActiveNavObserver, RevealObserver, TypingObserver, LazyObserver])"

section \<open>What the registered listeners do\<close>

text \<open>
  The body behind a listener's label, run on a world: the exception it throws or the
  world it leaves. The bodies of the ripple, tilt and magnetic listeners compute with
  the pointer's position and are not modelled, nor is the delay of a debounced
  listener: for these the result is \<open>None\<close>.
\<close>

fun run_handler :: "handler \<Rightarrow> world \<Rightarrow> (js_exception + world) option" where
  "run_handler (ToggleClick toggle menu) w = Some (Inr (toggle_click toggle menu w))"
| "run_handler (MobileLinkClick toggle menu) w = Some (Inr (mobile_link_click toggle menu w))"
| "run_handler (AnchorClick anchor) w = Some (anchor_click anchor w)"
| "run_handler (NavbarUpdate navbar) w = Some (Inr (navbar_update navbar w))"
| "run_handler (ParallaxFrame blobs bgGradients) w =
     Some (Inr (parallax_update blobs bgGradients w))"
| "run_handler (Debounce h wait) w = None"
| "run_handler (RippleClick btn) w = None"
| "run_handler (TiltMove n) w = None"
| "run_handler (TiltLeave n) w = None"
| "run_handler (MagneticMove n) w = None"
| "run_handler (MagneticLeave n) w = None"


section \<open>Example documents\<close>

definition blank_element :: element where
  "blank_element =
     \<lparr>classList = [], attrs = Map.empty, ancestors = [], textContent = [],
      hidden = False, style = Map.empty\<rparr>"

definition blank_world :: world where
  "blank_world =
     \<lparr>queryAll = (\<lambda>s. []), byId = (\<lambda>i. None), selector_error = (\<lambda>s. False),
      reduced_motion = False, scrollY = 0, store = (\<lambda>n. blank_element),
      listeners = [], observers = Map.empty, typing = None, timers = [], now = 0,
      trace = []\<rparr>"

text \<open>Node 0 is the toggle control and node 1 the menu.\<close>

definition menu_world :: "string option \<Rightarrow> bool \<Rightarrow> string list \<Rightarrow> world" where
  "menu_world aria hid cls =
     blank_world\<lparr>store := (\<lambda>n. blank_element)
        (0 := blank_element\<lparr>classList := cls, attrs := (\<lambda>a. if a = ''aria-expanded'' then aria else None)\<rparr>,
         1 := blank_element\<lparr>hidden := hid\<rparr>)\<rparr>"


text \<open>
  A batch in which the observer lists one target three times: it entered, left and
  entered again before the callback ran.
\<close>

definition flicker :: "node \<Rightarrow> io_entry list" where
  "flicker n =
     [\<lparr>target = n, isIntersecting = True\<rparr>, \<lparr>target = n, isIntersecting = False\<rparr>,
      \<lparr>target = n, isIntersecting = True\<rparr>]"

text \<open>
  Node 0 is the toggle control; node 1 is the menu, with the mobile links 2 and 3
  inside; node 4 has the class of a mobile link and lies outside the menu.
\<close>

definition links_world :: world where
  "links_world =
     blank_world\<lparr>queryAll := (\<lambda>s. if s = ''.navbar__toggle'' then [0]
                                  else if s = ''.navbar__mobile-link'' then [2, 3, 4] else []),
                 byId := (\<lambda>i. if i = ''mobile-menu'' then Some 1 else None),
                 store := (\<lambda>n. blank_element)
                   (2 := blank_element\<lparr>ancestors := [1]\<rparr>,
                    3 := blank_element\<lparr>ancestors := [1]\<rparr>)\<rparr>"

definition parallax_world :: "real \<Rightarrow> world" where
  "parallax_world y = blank_world\<lparr>scrollY := y\<rparr>"

definition reveal_world :: "bool \<Rightarrow> world" where
  "reveal_world reduce =
     blank_world\<lparr>queryAll := (\<lambda>s. if s = ''.animate-wrapper'' then [3, 4] else []),
                 reduced_motion := reduce\<rparr>"

definition reveal_batches :: "io_entry list list" where
  "reveal_batches =
     [[\<lparr>target = 3, isIntersecting = False\<rparr>, \<lparr>target = 4, isIntersecting = True\<rparr>],
      [\<lparr>target = 3, isIntersecting = True\<rparr>]]"

definition lazy_world :: world where
  "lazy_world =
     blank_world\<lparr>queryAll := (\<lambda>s. if s = ''.project-card__image[data-src]'' then [5, 6] else []),
                 store := (\<lambda>n. blank_element)
                   (5 := blank_element\<lparr>attrs := [''data-src'' \<mapsto> ''a.png'']\<rparr>,
                    6 := blank_element\<lparr>attrs := [''data-src'' \<mapsto> ''b.png'']\<rparr>)\<rparr>"

definition lazy_batches :: "io_entry list list" where
  "lazy_batches =
     [[\<lparr>target = 5, isIntersecting = False\<rparr>, \<lparr>target = 6, isIntersecting = False\<rparr>],
      [\<lparr>target = 5, isIntersecting = True\<rparr>]]"

text \<open>Node 0 is the tagline, inside the hero section, node 1.\<close>

definition tagline_world :: "string \<Rightarrow> world" where
  "tagline_world txt =
     blank_world\<lparr>queryAll := (\<lambda>s. if s = ''.hero__tagline'' then [0]
                                  else if s = ''.hero'' then [1] else []),
                 store := (\<lambda>n. blank_element)
                   (0 := blank_element\<lparr>ancestors := [1], textContent := txt\<rparr>)\<rparr>"

definition hero_report :: "bool \<Rightarrow> io_entry list" where
  "hero_report b = [\<lparr>target = 1, isIntersecting = b\<rparr>]"

text \<open>The world right after the observer has reported the hero as intersecting at time 0.\<close>

definition after_report :: "string \<Rightarrow> world" where
  "after_report txt =
     disconnect TypingObserver (setTimeout TypeTimer 600 (initTyping (tagline_world txt)))"

section \<open>Properties\<close>

subsection \<open>Basic facts about the primitives\<close>

lemma store_emit [simp]: "store (emit x w) = store w"
  by (simp add: emit_def)

lemma has_class_emit [simp]: "has_class (emit x w) n c = has_class w n c"
  by (simp add: has_class_def)

lemma store_modify [simp]: "store (modify n f w) m = (if m = n then f (store w n) else store w m)"
  by (simp add: modify_def)

lemma has_class_add [simp]:
  "has_class (classList_add n c w) m d = (has_class w m d \<or> (m = n \<and> d = c))"
  by (auto simp: classList_add_def has_class_def)

lemma has_class_remove [simp]:
  "has_class (classList_remove n c w) m d = (has_class w m d \<and> \<not> (m = n \<and> d = c))"
  by (auto simp: classList_remove_def has_class_def)

lemma has_class_setAttribute [simp]: "has_class (setAttribute n a v w) m c = has_class w m c"
  by (simp add: setAttribute_def has_class_def)

lemma has_class_set_hidden [simp]: "has_class (set_hidden n b w) m c = has_class w m c"
  by (simp add: set_hidden_def has_class_def)

lemma getAttribute_setAttribute [simp]:
  "getAttribute (setAttribute n a v w) m b =
     (if m = n \<and> b = a then Some v else getAttribute w m b)"
  by (simp add: setAttribute_def getAttribute_def)

lemma getAttribute_set_hidden [simp]: "getAttribute (set_hidden n b w) m a = getAttribute w m a"
  by (simp add: set_hidden_def getAttribute_def)

lemma getAttribute_add [simp]: "getAttribute (classList_add n c w) m a = getAttribute w m a"
  by (simp add: classList_add_def getAttribute_def)

lemma getAttribute_remove [simp]: "getAttribute (classList_remove n c w) m a = getAttribute w m a"
  by (simp add: classList_remove_def getAttribute_def)

lemma hidden_setAttribute [simp]: "hidden (store (setAttribute n a v w) m) = hidden (store w m)"
  by (simp add: setAttribute_def)

lemma hidden_set_hidden [simp]:
  "hidden (store (set_hidden n b w) m) = (if m = n then b else hidden (store w m))"
  by (simp add: set_hidden_def)

lemma hidden_add [simp]: "hidden (store (classList_add n c w) m) = hidden (store w m)"
  by (simp add: classList_add_def)

lemma hidden_remove [simp]: "hidden (store (classList_remove n c w) m) = hidden (store w m)"
  by (simp add: classList_remove_def)

lemma String_of_bool_eq_true [simp]: "(String_of_bool b = ''true'') = b"
  by (simp add: String_of_bool_def)

subsection \<open>The typing effect on the timer queue\<close>

declare advance.simps [simp del]

lemma advance_idle: "next_timer (timers w) = None \<Longrightarrow> advance t w = w\<lparr>now := max (now w) t\<rparr>"
  by (simp add: advance.simps)

lemma advance_wait:
  "next_timer (timers w) = Some x \<Longrightarrow> t < fst x \<Longrightarrow> advance t w = w\<lparr>now := max (now w) t\<rparr>"
  by (simp add: advance.simps)

lemma advance_fire:
  "next_timer (timers w) = Some x \<Longrightarrow> fst x \<le> t \<Longrightarrow> advance t w = advance t (fire_next x w)"
  by (simp add: advance.simps)

lemma text_of_emit [simp]: "text_of (emit x w) n = text_of w n"
  by (simp add: text_of_def)

lemma has_class_set_textContent [simp]: "has_class (set_textContent n s w) m c = has_class w m c"
  by (simp add: set_textContent_def has_class_def)

lemma text_of_set_textContent [simp]:
  "text_of (set_textContent n s w) m = (if m = n then s else text_of w m)"
  by (simp add: set_textContent_def text_of_def)

lemma text_of_add [simp]: "text_of (classList_add n c w) m = text_of w m"
  by (simp add: classList_add_def text_of_def)

lemma text_of_remove [simp]: "text_of (classList_remove n c w) m = text_of w m"
  by (simp add: classList_remove_def text_of_def)

text \<open>The dwell: one pending timer, the one that swaps the classes.\<close>

lemma dwell_phase:
  assumes "typing w = Some c" and "timers w = [(E, TypingDoneTimer)]"
  shows "text_of (advance t w) m = text_of w m"
    and "has_class (advance t w) m x =
          (if t < E then has_class w m x
           else (has_class w m x \<and> \<not> (m = el c \<and> x = ''typing-active''))
                \<or> (m = el c \<and> x = ''typing-done''))"
proof -
  have nt: "next_timer (timers w) = Some (E, TypingDoneTimer)"
    using assms by simp
  show "text_of (advance t w) m = text_of w m"
  proof (cases "t < E")
    case True
    then show ?thesis using advance_wait [OF nt] by (simp add: text_of_def)
  next
    case False
    let ?v = "fire_next (E, TypingDoneTimer) w"
    have "timers ?v = []"
      using assms by (simp add: fire_next_def typing_done_def classList_add_def classList_remove_def emit_def modify_def)
    then have "advance t ?v = ?v\<lparr>now := max (now ?v) t\<rparr>"
      by (simp add: advance_idle)
    moreover have "advance t w = advance t ?v"
      using advance_fire [OF nt] False by simp
    ultimately show ?thesis
      using assms by (simp add: text_of_def fire_next_def typing_done_def classList_add_def classList_remove_def)
  qed
  show "has_class (advance t w) m x =
          (if t < E then has_class w m x
           else (has_class w m x \<and> \<not> (m = el c \<and> x = ''typing-active''))
                \<or> (m = el c \<and> x = ''typing-done''))"
  proof (cases "t < E")
    case True
    then show ?thesis using advance_wait [OF nt] by (simp add: has_class_def)
  next
    case False
    let ?v = "fire_next (E, TypingDoneTimer) w"
    have "timers ?v = []"
      using assms by (simp add: fire_next_def typing_done_def classList_add_def classList_remove_def emit_def modify_def)
    then have "advance t ?v = ?v\<lparr>now := max (now ?v) t\<rparr>"
      by (simp add: advance_idle)
    moreover have "advance t w = advance t ?v"
      using advance_fire [OF nt] False by simp
    moreover have "has_class (?v\<lparr>now := max (now ?v) t\<rparr>) m x = has_class ?v m x"
      by (simp add: has_class_def)
    moreover have "has_class ?v m x = ((has_class w m x \<and> \<not> (m = el c \<and> x = ''typing-active''))
                \<or> (m = el c \<and> x = ''typing-done''))"
      using assms
      by (simp add: fire_next_def typing_done_def) (auto simp: has_class_def)
    ultimately show ?thesis using False by simp
  qed
qed


lemma type_step:
  assumes "typing w = Some c" and "charIndex c < length (fullText c)"
  shows "typing (type w) = Some (c\<lparr>charIndex := charIndex c + 1\<rparr>)"
    and "timers (type w) = timers w @ [(now w + 42, TypeTimer)]"
    and "now (type w) = now w"
    and "text_of (type w) m =
          (if m = el c then text_of w (el c) @ [fullText c ! charIndex c] else text_of w m)"
    and "has_class (type w) m x = has_class w m x"
  using assms
  by (simp_all add: type_def Let_def setTimeout_def text_of_def has_class_def set_textContent_def)

lemma type_finish:
  assumes "typing w = Some c" and "\<not> charIndex c < length (fullText c)"
  shows "type w = setTimeout TypingDoneTimer 2200 w"
  using assms by (simp add: type_def)

lemma idx_shift:
  fixes k L D t :: nat
  assumes "k < L" and "D \<le> t"
  shows "(if t < D + 42 then k + 1 else min L (k + 1 + (t - (D + 42)) div 42 + 1))
         = min L (k + (t - D) div 42 + 1)"
proof (cases "t < D + 42")
  case True
  then have "(t - D) div 42 = 0" using assms by simp
  then show ?thesis using True assms by simp
next
  case False
  then have e: "t - (D + 42) + 42 = t - D" by arith
  have "(t - (D + 42) + 42) div 42 = (t - (D + 42)) div 42 + 1" by simp
  then have "(t - D) div 42 = (t - (D + 42)) div 42 + 1" by (simp only: e)
  then show ?thesis using False by simp
qed

lemma typing_phase:
  assumes "typing w = Some c" and "charIndex c \<le> length (fullText c)"
    and "timers w = [(D, TypeTimer)]" and "now w \<le> D"
    and "text_of w (el c) = take (charIndex c) (fullText c)"
  shows "text_of (advance t w) m =
          (if m = el c then
             take (if t < D then charIndex c
                   else min (length (fullText c)) (charIndex c + (t - D) div 42 + 1))
               (fullText c)
           else text_of w m)
       \<and> has_class (advance t w) m x =
          (if t < D + 42 * (length (fullText c) - charIndex c) + 2200 then has_class w m x
           else (has_class w m x \<and> \<not> (m = el c \<and> x = ''typing-active''))
                \<or> (m = el c \<and> x = ''typing-done''))"
  using assms
proof (induction "length (fullText c) - charIndex c" arbitrary: w c D)
  case 0
  then have k: "charIndex c = length (fullText c)" by simp
  have nt: "next_timer (timers w) = Some (D, TypeTimer)" using 0 by simp
  show ?case
  proof (cases "t < D")
    case True
    then show ?thesis
      using advance_wait [OF nt] "0.prems" by (simp add: text_of_def has_class_def)
  next
    case False
    let ?u = "w\<lparr>timers := remove1 (D, TypeTimer) (timers w), now := max (now w) D\<rparr>"
    let ?v = "fire_next (D, TypeTimer) w"
    have v: "?v = setTimeout TypingDoneTimer 2200 ?u"
      using "0.prems" k by (simp add: fire_next_def type_finish)
    have tv: "typing ?v = Some c" and "timers ?v = [(D + 2200, TypingDoneTimer)]"
      using "0.prems" by (simp_all add: v setTimeout_def max_def)
    from dwell_phase [OF this]
    have d1: "\<And>m. text_of (advance t ?v) m = text_of ?v m"
      and d2: "\<And>m x. has_class (advance t ?v) m x =
          (if t < D + 2200 then has_class ?v m x
           else (has_class ?v m x \<and> \<not> (m = el c \<and> x = ''typing-active''))
                \<or> (m = el c \<and> x = ''typing-done''))"
      by auto
    have same: "text_of ?v m = text_of w m" "has_class ?v m x = has_class w m x"
      by (simp_all add: v setTimeout_def text_of_def has_class_def)
    have "advance t w = advance t ?v"
      using advance_fire [OF nt] False by simp
    then show ?thesis
      using False k "0.prems"(5) d1 [of m] d2 [of m x] same by simp
  qed
next
  case (Suc n)
  then have k: "charIndex c < length (fullText c)" by simp
  have nt: "next_timer (timers w) = Some (D, TypeTimer)" using Suc.prems by simp
  show ?case
  proof (cases "t < D")
    case True
    then show ?thesis
      using advance_wait [OF nt] Suc.prems by (simp add: text_of_def has_class_def)
  next
    case False
    let ?u = "w\<lparr>timers := remove1 (D, TypeTimer) (timers w), now := max (now w) D\<rparr>"
    let ?v = "fire_next (D, TypeTimer) w"
    let ?c = "c\<lparr>charIndex := charIndex c + 1\<rparr>"
    have u: "typing ?u = Some c" using Suc.prems by simp
    have v: "?v = type ?u" by (simp add: fire_next_def)
    have p1: "typing ?v = Some ?c"
      unfolding v using type_step(1) [OF u k] .
    have p3: "timers ?v = [(D + 42, TypeTimer)]"
      unfolding v using type_step(2) [OF u k] Suc.prems by (simp add: max_def)
    have p4: "now ?v \<le> D + 42"
      unfolding v using type_step(3) [OF u k] Suc.prems by (simp add: max_def)
    have tx: "text_of ?v m = (if m = el c then text_of w (el c) @ [fullText c ! charIndex c] else text_of w m)" for m
      unfolding v using type_step(4) [OF u k, of m] by (simp add: text_of_def)
    have hc: "has_class ?v m x = has_class w m x" for m x
      unfolding v using type_step(5) [OF u k, of m x] by (simp add: has_class_def)
    have p5: "text_of ?v (el ?c) = take (charIndex ?c) (fullText ?c)"
      using tx [of "el c"] Suc.prems(5) k by (simp add: take_Suc_conv_app_nth)
    have p0: "n = length (fullText ?c) - charIndex ?c"
      using Suc.hyps(2) by simp
    have p2: "charIndex ?c \<le> length (fullText ?c)" using k by simp
    note IH = Suc.hyps(1) [OF p0 p1 p2 p3 p4 p5]
    have adv: "advance t w = advance t ?v"
      using advance_fire [OF nt] False by simp
    have Dt: "D \<le> t" using False by simp
    have i1: "text_of (advance t ?v) m =
          (if m = el c then
             take (if t < D + 42 then charIndex c + 1
                   else min (length (fullText c)) (charIndex c + 1 + (t - (D + 42)) div 42 + 1))
               (fullText c)
           else text_of ?v m)"
      using IH by simp
    have i2: "has_class (advance t ?v) m x =
          (if t < D + 42 + 42 * (length (fullText c) - (charIndex c + 1)) + 2200
           then has_class ?v m x
           else (has_class ?v m x \<and> \<not> (m = el c \<and> x = ''typing-active''))
                \<or> (m = el c \<and> x = ''typing-done''))"
      using IH by simp
    have bound: "D + 42 + 42 * (length (fullText c) - (charIndex c + 1)) + 2200
                 = D + 42 * (length (fullText c) - charIndex c) + 2200"
      using k by simp
    have t1: "text_of (advance t w) m =
          (if m = el c then
             take (if t < D then charIndex c
                   else min (length (fullText c)) (charIndex c + (t - D) div 42 + 1))
               (fullText c)
           else text_of w m)"
      unfolding adv i1 idx_shift [OF k Dt] using False tx [of m] by simp
    have t2: "has_class (advance t w) m x =
          (if t < D + 42 * (length (fullText c) - charIndex c) + 2200 then has_class w m x
           else (has_class w m x \<and> \<not> (m = el c \<and> x = ''typing-active''))
                \<or> (m = el c \<and> x = ''typing-done''))"
      unfolding adv i2 bound hc ..
    show ?thesis using t1 t2 by (rule conjI)
  qed
qed

subsection \<open>Mobile menu\<close>

lemma toggle_click_aria:
  "getAttribute (toggle_click t m w) t ''aria-expanded'' =
     Some (String_of_bool (getAttribute w t ''aria-expanded'' \<noteq> Some ''true''))"
  by (simp add: toggle_click_def Let_def classList_toggle_def)

lemma toggle_click_hidden:
  "hidden (store (toggle_click t m w) m) = (getAttribute w t ''aria-expanded'' = Some ''true'')"
  by (simp add: toggle_click_def Let_def classList_toggle_def)

lemma toggle_click_active:
  "has_class (toggle_click t m w) t ''is-active'' = (\<not> has_class w t ''is-active'')"
  by (auto simp: toggle_click_def Let_def classList_toggle_def)

text \<open>
  C6, as stated, fails: the listener derives the next state from \<^verbatim>\<open>aria-expanded\<close>
  alone. From a start where \<^verbatim>\<open>aria-expanded\<close> is \<^verbatim>\<open>"true"\<close> while the menu is
  hidden, two clicks leave the menu shown; from a start without the attribute, two
  clicks leave it at \<^verbatim>\<open>"false"\<close>.
\<close>

theorem toggle_twice_counterexample:
  "hidden (store (toggle_click 0 1 (toggle_click 0 1 (menu_world (Some ''true'') True []))) 1)
     \<noteq> hidden (store (menu_world (Some ''true'') True []) 1)
   \<and> getAttribute (toggle_click 0 1 (toggle_click 0 1 (menu_world None True []))) 0 ''aria-expanded''
     \<noteq> getAttribute (menu_world None True []) 0 ''aria-expanded''"
  by (simp add: toggle_click_hidden toggle_click_aria)
    (simp add: menu_world_def getAttribute_def String_of_bool_def)

text \<open>
  C6 (amended): two clicks on the toggle control always return the \<^verbatim>\<open>is-active\<close> class
  to its original value; they return \<^verbatim>\<open>aria-expanded\<close> and the menu's
  \<^verbatim>\<open>hidden\<close> property to their original values exactly when the start is one of the
  two states the listener itself produces: \<^verbatim>\<open>aria-expanded\<close> is \<^verbatim>\<open>"true"\<close> with the menu
  shown, or \<^verbatim>\<open>"false"\<close> with the menu hidden.
\<close>

theorem toggle_twice_round_trip:
  "has_class (toggle_click t m (toggle_click t m w)) t ''is-active'' = has_class w t ''is-active''
   \<and> ((getAttribute (toggle_click t m (toggle_click t m w)) t ''aria-expanded''
          = getAttribute w t ''aria-expanded''
        \<and> hidden (store (toggle_click t m (toggle_click t m w)) m) = hidden (store w m))
       = ((getAttribute w t ''aria-expanded'' = Some ''true'' \<and> \<not> hidden (store w m))
          \<or> (getAttribute w t ''aria-expanded'' = Some ''false'' \<and> hidden (store w m))))"
  by (auto simp: toggle_click_active toggle_click_aria toggle_click_hidden String_of_bool_def)

subsection \<open>Styles\<close>

lemma style_set_style [simp]:
  "style (store (set_style n p v w) m) q =
     (if m = n \<and> q = p then Some v else style (store w m) q)"
  by (simp add: set_style_def)

lemma has_class_set_style [simp]: "has_class (set_style n p v w) m c = has_class w m c"
  by (simp add: set_style_def has_class_def)

lemma style_add [simp]: "style (store (classList_add n c w) m) = style (store w m)"
  by (simp add: classList_add_def)

lemma style_remove [simp]: "style (store (classList_remove n c w) m) = style (store w m)"
  by (simp add: classList_remove_def)

lemma scrollY_set_style [simp]: "scrollY (set_style n p v w) = scrollY w"
  by (simp add: set_style_def emit_def modify_def)

subsection \<open>Parallax\<close>

lemma forEach_index_style_other:
  "m \<notin> set xs \<Longrightarrow>
     style (store (forEach_index (\<lambda>n i. set_style n p (f i)) xs k w) m) = style (store w m)"
  by (induction xs arbitrary: k w) (auto simp: fun_eq_iff)

lemma forEach_index_style_nth:
  "distinct xs \<Longrightarrow> i < length xs \<Longrightarrow>
     style (store (forEach_index (\<lambda>n i. set_style n p (f i)) xs k w) (xs ! i)) p = Some (f (k + i))"
proof (induction xs arbitrary: i k w)
  case Nil
  then show ?case by simp
next
  case (Cons x xs)
  show ?case
  proof (cases i)
    case 0
    then show ?thesis
      using Cons.prems forEach_index_style_other [of x xs p f "Suc k" "set_style x p (f k) w"]
      by simp
  next
    case (Suc j)
    then show ?thesis
      using Cons.prems Cons.IH [of j "Suc k" "set_style x p (f k) w"] by simp
  qed
qed

lemma scrollY_forEach_index_style [simp]:
  "scrollY (forEach_index (\<lambda>n i. set_style n p (f i)) xs k w) = scrollY w"
  by (induction xs arbitrary: k w) auto

lemma blob_speed:
  "js_or (js_index speeds i) 0.02 =
     (if i = 0 then 0.03 else if i = 1 then - 0.02 else if i = 2 then 0.015 else 0.02)"
proof -
  consider "i = 0" | "i = 1" | "i = 2" | "3 \<le> i" by linarith
  then show ?thesis
    by cases (simp_all add: js_or_def js_index_def speeds_def)
qed

text \<open>
  C8: an update of the parallax at scroll offset \<open>scrollY w\<close> translates the blob at
  index \<open>i\<close> by the offset times 0.03, -0.02, 0.015 for \<open>i\<close> = 0, 1, 2 and times 0.02
  for every later index, and the gradient at index \<open>i\<close> by the offset times 0.018 for
  \<open>i = 0\<close> and times -0.012 for every later index. The lists are the two node lists
  of the queries, each without repetition; a blob keeps its translation when it is
  not also a gradient, which the later loop would overwrite.
\<close>

theorem parallax_update_factors:
  assumes "distinct blobs" and "distinct bgGradients"
  shows "(\<forall>i<length blobs. blobs ! i \<notin> set bgGradients \<longrightarrow>
            style (store (parallax_update blobs bgGradients w) (blobs ! i)) ''transform'' =
              Some (CssTranslate3dY (scrollY w *
                (if i = 0 then 0.03 else if i = 1 then - 0.02
                 else if i = 2 then 0.015 else 0.02))))
       \<and> (\<forall>i<length bgGradients.
            style (store (parallax_update blobs bgGradients w) (bgGradients ! i)) ''transform'' =
              Some (CssTranslate3dY (scrollY w * (if i = 0 then 0.018 else - 0.012))))"
proof (intro conjI allI impI)
  fix i assume i: "i < length blobs" and sep: "blobs ! i \<notin> set bgGradients"
  show "style (store (parallax_update blobs bgGradients w) (blobs ! i)) ''transform'' =
          Some (CssTranslate3dY (scrollY w *
            (if i = 0 then 0.03 else if i = 1 then - 0.02 else if i = 2 then 0.015 else 0.02)))"
  proof -
    have a: "style (store (parallax_update blobs bgGradients w) (blobs ! i))
              = style (store (forEach_index
                  (\<lambda>blob i. set_style blob ''transform''
                     (CssTranslate3dY (scrollY w * js_or (js_index speeds i) 0.02))) blobs 0 w)
                  (blobs ! i))"
      unfolding parallax_update_def Let_def by (rule forEach_index_style_other [OF sep])
    have b: "style (store (forEach_index
                  (\<lambda>blob i. set_style blob ''transform''
                     (CssTranslate3dY (scrollY w * js_or (js_index speeds i) 0.02))) blobs 0 w)
                  (blobs ! i)) ''transform''
              = Some (CssTranslate3dY (scrollY w * js_or (js_index speeds (0 + i)) 0.02))"
      by (rule forEach_index_style_nth [OF assms(1) i])
    show ?thesis
      unfolding a b by (simp only: blob_speed add_0)
  qed
next
  fix i assume i: "i < length bgGradients"
  show "style (store (parallax_update blobs bgGradients w) (bgGradients ! i)) ''transform'' =
          Some (CssTranslate3dY (scrollY w * (if i = 0 then 0.018 else - 0.012)))"
    unfolding parallax_update_def Let_def
    using forEach_index_style_nth [OF assms(2) i,
        of "''transform''" "\<lambda>i. CssTranslate3dY (scrollY w * (if i = 0 then 0.018 else - 0.012))" 0]
    by simp
qed

theorem parallax_update_factors_witness:
  "distinct [10, 11, 12, 13 :: node] \<and> distinct [20, 21, 22 :: node]
   \<and> map (\<lambda>n. style (store (parallax_update [10, 11, 12, 13] [20, 21, 22] (parallax_world 200)) n)
                 ''transform'')
         [10, 11, 12, 13, 20, 21, 22]
       = map (\<lambda>v. Some (CssTranslate3dY v)) [6, - 4, 3, 4, 18 / 5, - (12 / 5), - (12 / 5)]"
  using parallax_update_factors [of "[10, 11, 12, 13]" "[20, 21, 22]" "parallax_world 200"]
  by (simp add: parallax_world_def All_less_Suc2 numeral_eq_Suc)

subsection \<open>Observers\<close>

lemma observers_emit [simp]: "observers (emit x w) = observers w"
  by (simp add: emit_def)

lemma observers_modify [simp]: "observers (modify n f w) = observers w"
  by (simp add: modify_def)

lemma observed_cong: "observers v = observers w \<Longrightarrow> observed v ob = observed w ob"
  by (simp add: observed_def)

lemma observed_add [simp]: "observed (classList_add n c w) ob = observed w ob"
  by (simp add: classList_add_def observed_def)

lemma observed_setAttribute [simp]: "observed (setAttribute n a v w) ob = observed w ob"
  by (simp add: setAttribute_def observed_def)

lemma observed_removeAttribute [simp]: "observed (removeAttribute n a w) ob = observed w ob"
  by (simp add: removeAttribute_def observed_def)

lemma observed_unobserve [simp]:
  "observed (unobserve ob n w) ob' =
     (if ob' = ob then filter (\<lambda>x. x \<noteq> n) (observed w ob) else observed w ob')"
  by (simp add: unobserve_def observed_def split: option.splits)

lemma observed_new_observer [simp]:
  "observed (new_observer ob opts w) ob' = (if ob' = ob then [] else observed w ob')"
  by (simp add: new_observer_def observed_def)

lemma observed_observe:
  "observers w ob \<noteq> None \<Longrightarrow>
     set (observed (observe ob n w) ob) = insert n (set (observed w ob))"
  by (auto simp: observe_def observed_def split: option.splits)

lemma observers_observe_None [simp]:
  "(observers (observe ob n w) ob' = None) = (observers w ob' = None)"
  by (auto simp: observe_def split: option.splits)

lemma observed_forEach_observe:
  "observers w ob \<noteq> None \<Longrightarrow>
     set (observed (forEach (\<lambda>n. observe ob n) xs w) ob) = set xs \<union> set (observed w ob)"
  unfolding forEach_def
proof (induction xs arbitrary: w)
  case Nil
  then show ?case by simp
next
  case (Cons a xs)
  have "observers (observe ob a w) ob \<noteq> None"
    using Cons.prems by simp
  from Cons.IH [OF this] observed_observe [OF Cons.prems, of a]
  show ?case by auto
qed

lemma trace_observe [simp]: "trace (observe ob n w) = trace w"
  by (simp add: observe_def split: option.splits)

lemma store_observe [simp]: "store (observe ob n w) = store w"
  by (simp add: observe_def split: option.splits)

lemma trace_forEach_observe [simp]: "trace (forEach (\<lambda>n. observe ob n) xs w) = trace w"
  unfolding forEach_def by (induction xs arbitrary: w) auto

lemma store_forEach_observe [simp]: "store (forEach (\<lambda>n. observe ob n) xs w) = store w"
  unfolding forEach_def by (induction xs arbitrary: w) auto

lemma options_observe [simp]:
  "map_option fst (observers (observe ob n w) ob') = map_option fst (observers w ob')"
  by (auto simp: observe_def split: option.splits)

lemma options_forEach_observe [simp]:
  "map_option fst (observers (forEach (\<lambda>n. observe ob n) xs w) ob')
     = map_option fst (observers w ob')"
  unfolding forEach_def by (induction xs arbitrary: w) auto

subsection \<open>Executions of an observer\<close>

lemma run_batches_fold:
  "run_batches ob (\<lambda>b. fold f b) bs w = Some w' \<Longrightarrow> w' = fold f (concat bs) w"
  by (induction bs arbitrary: w) (auto split: if_splits)

lemma reported_Nil [simp]: "reported [] = []"
  by (simp add: reported_def)

lemma reported_Cons:
  "reported (b # bs) = map target (filter isIntersecting b) @ reported bs"
  by (simp add: reported_def)

text \<open>
  A callback that unobserves what it is told intersects: later batches cannot report
  those targets again.
\<close>

lemma run_batches_targets:
  assumes shrink: "\<And>b w. set (observed (cb b w) ob) \<subseteq> set (observed w ob)"
    and "run_batches ob cb bs w = Some w'"
  shows "target ` set (concat bs) \<subseteq> set (observed w ob)"
  using assms(2)
proof (induction bs arbitrary: w)
  case Nil
  then show ?case by simp
next
  case (Cons b bs)
  then have d: "deliverable w ob b" and r: "run_batches ob cb bs (cb b w) = Some w'"
    by (auto split: if_splits)
  from Cons.IH [OF r] shrink [of b w]
  have "target ` set (concat bs) \<subseteq> set (observed w ob)" by blast
  moreover have "target ` set b \<subseteq> set (observed w ob)"
    using d by (auto simp: deliverable_def list_all_iff)
  ultimately show ?case by auto
qed

lemma run_batches_once:
  assumes unobs: "\<And>b w. set (observed (cb b w) ob)
                    = set (observed w ob) - set (map target (filter isIntersecting b))"
    and "run_batches ob cb bs w = Some w'"
    and "once_per_batch bs"
  shows "distinct (reported bs)"
    and "set (observed w' ob) = set (observed w ob) - set (reported bs)"
  using assms(2,3)
proof (induction bs arbitrary: w)
  case Nil
  case 1 then show ?case by simp
  case 2 then show ?case by simp
next
  case (Cons b bs)
  case 1
  then have d: "deliverable w ob b" and r: "run_batches ob cb bs (cb b w) = Some w'"
    and o: "once_per_batch bs" and db: "distinct (map target (filter isIntersecting b))"
    by (auto simp: once_per_batch_def split: if_splits)
  have shrink: "\<And>b w. set (observed (cb b w) ob) \<subseteq> set (observed w ob)"
    using unobs by blast
  have "target ` set (concat bs) \<subseteq> set (observed (cb b w) ob)"
    using run_batches_targets [OF shrink r] .
  then have "set (reported bs) \<subseteq> set (observed w ob) - set (map target (filter isIntersecting b))"
    unfolding unobs by (auto simp: reported_def)
  moreover note db
  ultimately show ?case
    using Cons.IH(1) [OF r o] by (auto simp: reported_Cons)
next
  case (Cons b bs)
  case 2
  then have r: "run_batches ob cb bs (cb b w) = Some w'" and o: "once_per_batch bs"
    by (auto simp: once_per_batch_def split: if_splits)
  show ?case
    using Cons.IH(2) [OF r o] unfolding unobs by (auto simp: reported_Cons)
qed

lemma run_batches_one_batch:
  assumes unobs: "\<And>b w. set (observed (cb b w) ob)
                    = set (observed w ob) - set (map target (filter isIntersecting b))"
    and "run_batches ob cb bs w = Some w'"
  shows "length (filter (\<lambda>b. n \<in> set (reported [b])) bs) \<le> 1"
  using assms(2)
proof (induction bs arbitrary: w)
  case Nil
  then show ?case by simp
next
  case (Cons b bs)
  then have r: "run_batches ob cb bs (cb b w) = Some w'"
    by (auto split: if_splits)
  have shrink: "\<And>b w. set (observed (cb b w) ob) \<subseteq> set (observed w ob)"
    using unobs by blast
  show ?case
  proof (cases "n \<in> set (reported [b])")
    case False
    then show ?thesis using Cons.IH [OF r] by simp
  next
    case True
    then have "n \<notin> set (observed (cb b w) ob)"
      unfolding unobs by (simp add: reported_def)
    then have "n \<notin> target ` set (concat bs)"
      using run_batches_targets [OF shrink r] by blast
    then have "filter (\<lambda>b. n \<in> set (reported [b])) bs = []"
      by (auto simp: filter_empty_conv reported_def)
    then show ?thesis using True by simp
  qed
qed

lemma distinct_count_list: "distinct xs \<Longrightarrow> count_list xs x \<le> 1"
  by (induction xs) auto

lemma calls_since_append [simp]: "trace w' = trace w @ xs \<Longrightarrow> calls_since w w' = xs"
  by (simp add: calls_since_def)

subsection \<open>Section reveal\<close>

lemma trace_emit [simp]: "trace (emit x w) = trace w @ [x]"
  by (simp add: emit_def)

lemma trace_modify [simp]: "trace (modify n f w) = trace w"
  by (simp add: modify_def)

lemma trace_unobserve [simp]: "trace (unobserve ob n w) = trace w"
  by (simp add: unobserve_def split: option.splits)

lemma store_unobserve [simp]: "store (unobserve ob n w) = store w"
  by (simp add: unobserve_def split: option.splits)

lemma has_class_unobserve [simp]: "has_class (unobserve ob n w) m c = has_class w m c"
  by (simp add: has_class_def)

lemma reveal_fold_trace:
  "trace (fold reveal_entry es w) =
     trace w @ map (\<lambda>n. ClassListAdd n ''is-visible'') (map target (filter isIntersecting es))"
  by (induction es arbitrary: w) (auto simp: reveal_entry_def classList_add_def)

lemma reveal_fold_has_class:
  "has_class (fold reveal_entry es w) n c =
     (has_class w n c \<or> (c = ''is-visible'' \<and> n \<in> set (map target (filter isIntersecting es))))"
  by (induction es arbitrary: w) (auto simp: reveal_entry_def)

lemma reveal_fold_observed:
  "set (observed (fold reveal_entry es w) RevealObserver) =
     set (observed w RevealObserver) - set (map target (filter isIntersecting es))"
  by (induction es arbitrary: w) (auto simp: reveal_entry_def)

lemma reveal_callback_fold: "reveal_callback = (\<lambda>b. fold reveal_entry b)"
  by (simp add: fun_eq_iff reveal_callback_def)

lemma initReveal_motion:
  assumes "motionOK w"
  shows "trace (initReveal w) = trace w" and "store (initReveal w) = store w"
    and "set (observed (initReveal w) RevealObserver) = set (querySelectorAll w ''.animate-wrapper'')"
    and "map_option fst (observers (initReveal w) RevealObserver) = Some (Threshold 0.12)"
proof -
  let ?v = "new_observer RevealObserver (Threshold 0.12) w"
  have v: "observers ?v RevealObserver \<noteq> None"
    by (simp add: new_observer_def)
  have i: "initReveal w = forEach (\<lambda>n. observe RevealObserver n)
             (querySelectorAll w ''.animate-wrapper'') ?v"
    using assms by (simp add: initReveal_def)
  show "trace (initReveal w) = trace w" and "store (initReveal w) = store w"
    unfolding i by (simp_all add: new_observer_def)
  show "set (observed (initReveal w) RevealObserver) = set (querySelectorAll w ''.animate-wrapper'')"
    unfolding i observed_forEach_observe [OF v] by simp
  show "map_option fst (observers (initReveal w) RevealObserver) = Some (Threshold 0.12)"
    unfolding i by (simp add: new_observer_def)
qed

lemma trace_forEach_add:
  "trace (forEach (\<lambda>n. classList_add n c) xs w) = trace w @ map (\<lambda>n. ClassListAdd n c) xs"
  unfolding forEach_def by (induction xs arbitrary: w) (auto simp: classList_add_def)

lemma has_class_forEach_add:
  "has_class (forEach (\<lambda>n. classList_add n c) xs w) m d =
     (has_class w m d \<or> (d = c \<and> m \<in> set xs))"
  unfolding forEach_def by (induction xs arbitrary: w) auto

lemma observers_add [simp]: "observers (classList_add n c w) = observers w"
  by (simp add: classList_add_def)

lemma observers_forEach_add [simp]:
  "observers (forEach (\<lambda>n. classList_add n c) xs w) = observers w"
  unfolding forEach_def by (induction xs arbitrary: w) auto

text \<open>
  The reveal behaviour in general. With motion allowed, \<^verbatim>\<open>initReveal\<close> makes no call
  and watches the elements of class \<^verbatim>\<open>animate-wrapper\<close> at threshold 0.12. In every
  execution of the observer the only calls are \<^verbatim>\<open>classList.add("is-visible")\<close>, one
  for each report of an intersecting target and on that target, which is one of the
  watched elements and is unobserved from then on; so at most one batch ever adds the
  class to an element, the element receives the class at most once when no batch
  reports a target as intersecting twice, and it has the class afterwards exactly when
  it had it before or was reported. With motion disallowed, \<^verbatim>\<open>initReveal\<close> adds the
  class to every such element at once and creates no observer.
\<close>

theorem reveal_at_most_once:
  "(motionOK w \<and> run_batches RevealObserver reveal_callback bs (initReveal w) = Some w' \<longrightarrow>
      map_option fst (observers (initReveal w) RevealObserver) = Some (Threshold 0.12)
    \<and> calls_since w w' = map (\<lambda>n. ClassListAdd n ''is-visible'') (reported bs)
    \<and> set (reported bs) \<subseteq> set (querySelectorAll w ''.animate-wrapper'')
    \<and> (\<forall>n. length (filter (\<lambda>b. n \<in> set (reported [b])) bs) \<le> 1)
    \<and> (once_per_batch bs \<longrightarrow>
         (\<forall>n. count_list (calls_since w w') (ClassListAdd n ''is-visible'') \<le> 1))
    \<and> (\<forall>n. has_class w' n ''is-visible'' =
              (has_class w n ''is-visible'' \<or> n \<in> set (reported bs)))
    \<and> set (observed w' RevealObserver) =
         set (querySelectorAll w ''.animate-wrapper'') - set (reported bs))
   \<and> (\<not> motionOK w \<longrightarrow>
        (\<forall>n\<in>set (querySelectorAll w ''.animate-wrapper''). has_class (initReveal w) n ''is-visible'')
      \<and> calls_since w (initReveal w) =
          map (\<lambda>n. ClassListAdd n ''is-visible'') (querySelectorAll w ''.animate-wrapper'')
      \<and> observers (initReveal w) = observers w)"
proof (intro conjI impI)
  assume "\<not> motionOK w"
  then have i: "initReveal w =
      forEach (\<lambda>n. classList_add n ''is-visible'') (querySelectorAll w ''.animate-wrapper'') w"
    by (simp add: initReveal_def)
  show "\<forall>n\<in>set (querySelectorAll w ''.animate-wrapper''). has_class (initReveal w) n ''is-visible''"
    unfolding i by (simp add: has_class_forEach_add)
  show "calls_since w (initReveal w) =
          map (\<lambda>n. ClassListAdd n ''is-visible'') (querySelectorAll w ''.animate-wrapper'')"
    unfolding i by (simp add: trace_forEach_add)
  show "observers (initReveal w) = observers w"
    unfolding i by simp
next
  assume a: "motionOK w \<and> run_batches RevealObserver reveal_callback bs (initReveal w) = Some w'"
  then have m: "motionOK w" by simp
  note init = initReveal_motion [OF m]
  have run: "run_batches RevealObserver (\<lambda>b. fold reveal_entry b) bs (initReveal w) = Some w'"
    using a by (simp add: reveal_callback_fold)
  have w': "w' = fold reveal_entry (concat bs) (initReveal w)"
    using run by (rule run_batches_fold)
  have tr: "trace w' = trace w @ map (\<lambda>n. ClassListAdd n ''is-visible'') (reported bs)"
    unfolding w' reveal_fold_trace init(1) reported_def ..
  show "map_option fst (observers (initReveal w) RevealObserver) = Some (Threshold 0.12)"
    by (rule init(4))
  show calls: "calls_since w w' = map (\<lambda>n. ClassListAdd n ''is-visible'') (reported bs)"
    using tr by simp
  have "target ` set (concat bs) \<subseteq> set (observed (initReveal w) RevealObserver)"
    using run by (rule run_batches_targets [rotated]) (auto simp: reveal_fold_observed)
  then show "set (reported bs) \<subseteq> set (querySelectorAll w ''.animate-wrapper'')"
    unfolding init(3) by (auto simp: reported_def)
  show "\<forall>n. has_class w' n ''is-visible'' = (has_class w n ''is-visible'' \<or> n \<in> set (reported bs))"
    unfolding w' reveal_fold_has_class by (simp add: has_class_def init(2) reported_def)
  show "set (observed w' RevealObserver) =
          set (querySelectorAll w ''.animate-wrapper'') - set (reported bs)"
    unfolding w' reveal_fold_observed init(3) reported_def ..
  show "\<forall>n. length (filter (\<lambda>b. n \<in> set (reported [b])) bs) \<le> 1"
  proof
    fix n
    show "length (filter (\<lambda>b. n \<in> set (reported [b])) bs) \<le> 1"
      using run by (rule run_batches_one_batch [rotated]) (rule reveal_fold_observed)
  qed
  show "\<forall>n. count_list (calls_since w w') (ClassListAdd n ''is-visible'') \<le> 1"
    if "once_per_batch bs"
  proof -
    have "distinct (reported bs)"
      using run that by (rule run_batches_once(1) [rotated]) (rule reveal_fold_observed)
    then have "distinct (calls_since w w')"
      unfolding calls by (simp add: distinct_map inj_on_def)
    then show ?thesis
      by (intro allI distinct_count_list)
  qed
qed

theorem reveal_at_most_once_witness:
  "motionOK (reveal_world False)
   \<and> run_batches RevealObserver reveal_callback reveal_batches (initReveal (reveal_world False))
       = Some (fold reveal_entry (concat reveal_batches) (initReveal (reveal_world False)))
   \<and> once_per_batch reveal_batches
   \<and> calls_since (reveal_world False)
        (fold reveal_entry (concat reveal_batches) (initReveal (reveal_world False)))
       = [ClassListAdd 4 ''is-visible'', ClassListAdd 3 ''is-visible'']
   \<and> count_list (calls_since (reveal_world False)
         (fold reveal_entry (concat reveal_batches) (initReveal (reveal_world False))))
        (ClassListAdd 3 ''is-visible'') \<le> 1
   \<and> observed (fold reveal_entry (concat reveal_batches) (initReveal (reveal_world False)))
        RevealObserver = []
   \<and> \<not> motionOK (reveal_world True)
   \<and> has_class (initReveal (reveal_world True)) 3 ''is-visible''
   \<and> has_class (initReveal (reveal_world True)) 4 ''is-visible''
   \<and> observers (initReveal (reveal_world True)) RevealObserver = None"
proof -
  have m: "motionOK (reveal_world False)" and r: "\<not> motionOK (reveal_world True)"
    by (simp_all add: motionOK_def reveal_world_def blank_world_def)
  have q: "querySelectorAll (reveal_world b) ''.animate-wrapper'' = [3, 4]" for b
    by (simp add: querySelectorAll_def reveal_world_def blank_world_def)
  have o: "observed (initReveal (reveal_world False)) RevealObserver = [3, 4]"
    using m by (simp add: initReveal_def q forEach_def observe_def new_observer_def observed_def)
  have run: "run_batches RevealObserver reveal_callback reveal_batches (initReveal (reveal_world False))
       = Some (fold reveal_entry (concat reveal_batches) (initReveal (reveal_world False)))"
    by (simp add: reveal_batches_def deliverable_def o reveal_callback_def reveal_entry_def)
  have once: "once_per_batch reveal_batches"
    by (simp add: once_per_batch_def reveal_batches_def)
  have rep: "reported reveal_batches = [4, 3]"
    by (simp add: reported_def reveal_batches_def)
  have none: "observers (reveal_world True) RevealObserver = None"
    by (simp add: reveal_world_def blank_world_def)
  have fin: "observed (fold reveal_entry (concat reveal_batches) (initReveal (reveal_world False)))
        RevealObserver = []"
    by (simp add: reveal_batches_def reveal_entry_def o)
  show ?thesis
    using reveal_at_most_once [of "reveal_world False" reveal_batches
        "fold reveal_entry (concat reveal_batches) (initReveal (reveal_world False))"]
      reveal_at_most_once [of "reveal_world True" reveal_batches
        "fold reveal_entry (concat reveal_batches) (initReveal (reveal_world False))"]
      m r run once fin none
    by (simp add: rep q)
qed

subsection \<open>Lazy loading\<close>

lemma trace_setAttribute [simp]: "trace (setAttribute n a v w) = trace w @ [SetAttribute n a v]"
  by (simp add: setAttribute_def)

lemma trace_removeAttribute [simp]:
  "trace (removeAttribute n a w) = trace w @ [RemoveAttribute n a]"
  by (simp add: removeAttribute_def)

lemma store_setAttribute [simp]:
  "store (setAttribute n a v w) m =
     (if m = n then (store w n)\<lparr>attrs := (attrs (store w n))(a \<mapsto> v)\<rparr> else store w m)"
  by (simp add: setAttribute_def)

lemma store_removeAttribute [simp]:
  "store (removeAttribute n a w) m =
     (if m = n then (store w n)\<lparr>attrs := (attrs (store w n))(a := None)\<rparr> else store w m)"
  by (simp add: removeAttribute_def)

lemma lazy_entry_trace:
  "trace (lazy_entry e w) =
     trace w @ (if isIntersecting e
                then [SetAttribute (target e) ''src'' (dataset_src w (target e)),
                      RemoveAttribute (target e) ''data-src'']
                else [])"
  by (simp add: lazy_entry_def Let_def)

lemma lazy_entry_store:
  "store (lazy_entry e w) n =
     (if isIntersecting e \<and> n = target e then loaded w n else store w n)"
  by (simp add: lazy_entry_def Let_def loaded_def)

lemma lazy_entry_observed:
  "observed (lazy_entry e w) LazyObserver =
     (if isIntersecting e then filter (\<lambda>x. x \<noteq> target e) (observed w LazyObserver)
      else observed w LazyObserver)"
  by (simp add: lazy_entry_def Let_def)

lemma dataset_src_cong: "store v n = store w n \<Longrightarrow> dataset_src v n = dataset_src w n"
  by (simp add: dataset_src_def getAttribute_def)

lemma loaded_cong: "store v n = store w n \<Longrightarrow> loaded v n = loaded w n"
  by (simp add: loaded_def dataset_src_def getAttribute_def)

lemma lazy_fold_observed:
  "set (observed (fold lazy_entry es w) LazyObserver) =
     set (observed w LazyObserver) - set (map target (filter isIntersecting es))"
  by (induction es arbitrary: w) (auto simp: lazy_entry_observed)

lemma lazy_fold:
  assumes "distinct (map target (filter isIntersecting es))"
  shows "trace (fold lazy_entry es w) =
           trace w @ concat (map (\<lambda>n. [SetAttribute n ''src'' (dataset_src w n),
                                         RemoveAttribute n ''data-src''])
                              (map target (filter isIntersecting es)))
       \<and> (\<forall>n. store (fold lazy_entry es w) n =
              (if n \<in> set (map target (filter isIntersecting es)) then loaded w n else store w n))"
  using assms
proof (induction es arbitrary: w)
  case Nil
  then show ?case by simp
next
  case (Cons e es)
  show ?case
  proof (cases "isIntersecting e")
    case False
    then show ?thesis
      using Cons.IH [of "lazy_entry e w"] Cons.prems by (simp add: lazy_entry_def)
  next
    case True
    let ?v = "lazy_entry e w"
    let ?rest = "map target (filter isIntersecting es)"
    have notin: "target e \<notin> set ?rest" and d: "distinct ?rest"
      using Cons.prems True by auto
    have same: "store ?v n = store w n" if "n \<in> set ?rest" for n
    proof -
      from that notin have "n \<noteq> target e" by blast
      then show ?thesis by (simp add: lazy_entry_store)
    qed
    have calls: "map (\<lambda>n. [SetAttribute n ''src'' (dataset_src ?v n), RemoveAttribute n ''data-src'']) ?rest
               = map (\<lambda>n. [SetAttribute n ''src'' (dataset_src w n), RemoveAttribute n ''data-src'']) ?rest"
      by (rule map_cong [OF refl]) (simp add: dataset_src_cong [OF same])
    from Cons.IH [OF d, of ?v]
    have t: "trace (fold lazy_entry es ?v) =
               trace ?v @ concat (map (\<lambda>n. [SetAttribute n ''src'' (dataset_src ?v n),
                                              RemoveAttribute n ''data-src'']) ?rest)"
      and s: "\<And>n. store (fold lazy_entry es ?v) n =
                (if n \<in> set ?rest then loaded ?v n else store ?v n)"
      by auto
    have T: "trace (fold lazy_entry (e # es) w) =
            trace w @ concat (map (\<lambda>n. [SetAttribute n ''src'' (dataset_src w n),
                                          RemoveAttribute n ''data-src''])
                               (map target (filter isIntersecting (e # es))))"
      using True by (simp add: t calls lazy_entry_trace del: map_map)
    have S: "store (fold lazy_entry (e # es) w) n =
              (if n \<in> set (map target (filter isIntersecting (e # es))) then loaded w n
               else store w n)" for n
    proof (cases "n \<in> set ?rest")
      case True
      then show ?thesis
        using s [of n] loaded_cong [OF same [OF True]] by simp
    next
      case False
      then show ?thesis
        using s [of n] True by (simp add: lazy_entry_store)
    qed
    show ?thesis
      by (rule conjI [OF T]) (intro allI, rule S)
  qed
qed

lemma lazy_callback_fold: "lazy_callback = (\<lambda>b. fold lazy_entry b)"
  by (simp add: fun_eq_iff lazy_callback_def)

lemma count_list_loads:
  "count_list (concat (map (\<lambda>n. [SetAttribute n ''src'' (d n), RemoveAttribute n ''data-src'']) xs))
       (SetAttribute m ''src'' (d m))
     = count_list xs m"
  by (induction xs) auto

lemma distinct_count_list_eq:
  "distinct xs \<Longrightarrow> count_list xs x = (if x \<in> set xs then 1 else 0)"
  by (induction xs) auto

lemma initLazyImages_facts:
  assumes "observers w LazyObserver = None"
  shows "trace (initLazyImages w) = trace w" and "store (initLazyImages w) = store w"
    and "set (observed (initLazyImages w) LazyObserver)
           = set (querySelectorAll w ''.project-card__image[data-src]'')"
    and "querySelectorAll w ''.project-card__image[data-src]'' \<noteq> [] \<Longrightarrow>
           map_option fst (observers (initLazyImages w) LazyObserver) = Some (RootMargin ''200px'')"
proof -
  let ?imgs = "querySelectorAll w ''.project-card__image[data-src]''"
  let ?v = "new_observer LazyObserver (RootMargin ''200px'') w"
  have v: "observers ?v LazyObserver \<noteq> None"
    by (simp add: new_observer_def)
  have i: "initLazyImages w =
             (if ?imgs = [] then w else forEach (\<lambda>img. observe LazyObserver img) ?imgs ?v)"
    by (simp add: initLazyImages_def Let_def)
  show "trace (initLazyImages w) = trace w" and "store (initLazyImages w) = store w"
    unfolding i by (simp_all add: new_observer_def)
  show "set (observed (initLazyImages w) LazyObserver) = set ?imgs"
  proof (cases "?imgs = []")
    case True
    then show ?thesis unfolding i using assms by (simp add: observed_def)
  next
    case False
    have "observed ?v LazyObserver = []" by simp
    then show ?thesis
      unfolding i using False observed_forEach_observe [OF v, of ?imgs] by simp
  qed
  show "map_option fst (observers (initLazyImages w) LazyObserver) = Some (RootMargin ''200px'')"
    if "?imgs \<noteq> []"
    unfolding i using that by (simp add: new_observer_def)
qed

text \<open>
  Lazy loading in general. Take a startup world without observers in which every
  image selected by \<^verbatim>\<open>.project-card__image[data-src]\<close> has the attribute. Then
  \<^verbatim>\<open>initLazyImages\<close> watches exactly the selected images, with root margin
  \<^verbatim>\<open>200px\<close>. In an execution of the observer in which no batch reports a target as
  intersecting twice, the calls are, for each report of an intersecting image and in
  the order of the reports, the assignment of the image's original \<^verbatim>\<open>data-src\<close>
  value to \<^verbatim>\<open>src\<close> followed by the removal of \<^verbatim>\<open>data-src\<close>; every reported image
  is one of the selected images, is loaded exactly once, ends with its \<^verbatim>\<open>src\<close> equal
  to its original \<^verbatim>\<open>data-src\<close>, without \<^verbatim>\<open>data-src\<close>, and unobserved. Elements
  never reported as intersecting, among them all images without \<^verbatim>\<open>data-src\<close>, keep
  their state.
\<close>

theorem lazy_image_loads_once:
  assumes startup: "observers w LazyObserver = None"
    and selected: "\<forall>n\<in>set (querySelectorAll w ''.project-card__image[data-src]'').
                     getAttribute w n ''data-src'' \<noteq> None"
    and run: "run_batches LazyObserver lazy_callback bs (initLazyImages w) = Some w'"
    and once: "once_per_batch bs"
  shows "calls_since w w' =
           concat (map (\<lambda>n. [SetAttribute n ''src'' (dataset_src w n),
                                RemoveAttribute n ''data-src'']) (reported bs))
       \<and> distinct (reported bs)
       \<and> set (reported bs) \<subseteq> set (querySelectorAll w ''.project-card__image[data-src]'')
       \<and> (\<forall>n. count_list (calls_since w w') (SetAttribute n ''src'' (dataset_src w n))
                = (if n \<in> set (reported bs) then 1 else 0))
       \<and> (\<forall>n\<in>set (reported bs).
              getAttribute w' n ''src'' = getAttribute w n ''data-src''
            \<and> getAttribute w' n ''data-src'' = None
            \<and> n \<notin> set (observed w' LazyObserver))
       \<and> (\<forall>n. n \<notin> set (reported bs) \<longrightarrow> store w' n = store w n)
       \<and> set (observed (initLazyImages w) LazyObserver)
           = set (querySelectorAll w ''.project-card__image[data-src]'')
       \<and> (querySelectorAll w ''.project-card__image[data-src]'' \<noteq> [] \<longrightarrow>
            map_option fst (observers (initLazyImages w) LazyObserver)
              = Some (RootMargin ''200px''))"
proof -
  note init = initLazyImages_facts [OF startup]
  have run': "run_batches LazyObserver (\<lambda>b. fold lazy_entry b) bs (initLazyImages w) = Some w'"
    using run by (simp add: lazy_callback_fold)
  have w': "w' = fold lazy_entry (concat bs) (initLazyImages w)"
    using run' by (rule run_batches_fold)
  have d: "distinct (reported bs)"
    using run' once by (rule run_batches_once(1) [rotated]) (rule lazy_fold_observed)
  then have d': "distinct (map target (filter isIntersecting (concat bs)))"
    by (simp add: reported_def)
  have same: "dataset_src (initLazyImages w) n = dataset_src w n" for n
    by (rule dataset_src_cong) (simp add: init(2))
  have same': "loaded (initLazyImages w) n = loaded w n" for n
    by (rule loaded_cong) (simp add: init(2))
  from lazy_fold [OF d', of "initLazyImages w"]
  have tr: "trace w' = trace w @ concat (map (\<lambda>n. [SetAttribute n ''src'' (dataset_src w n),
                                RemoveAttribute n ''data-src'']) (reported bs))"
    and st: "\<And>n. store w' n = (if n \<in> set (reported bs) then loaded w n else store w n)"
    unfolding w' [symmetric] same same' init reported_def [symmetric] by auto
  have calls: "calls_since w w' =
           concat (map (\<lambda>n. [SetAttribute n ''src'' (dataset_src w n),
                                RemoveAttribute n ''data-src'']) (reported bs))"
    using tr by simp
  have "target ` set (concat bs) \<subseteq> set (observed (initLazyImages w) LazyObserver)"
    using run' by (rule run_batches_targets [rotated]) (auto simp: lazy_fold_observed)
  then have sub: "set (reported bs) \<subseteq> set (querySelectorAll w ''.project-card__image[data-src]'')"
    unfolding init(3) by (auto simp: reported_def)
  have cnt: "\<forall>n. count_list (calls_since w w') (SetAttribute n ''src'' (dataset_src w n))
                = (if n \<in> set (reported bs) then 1 else 0)"
  proof
    fix n
    have "count_list (reported bs) n = (if n \<in> set (reported bs) then 1 else 0)"
      using d by (rule distinct_count_list_eq)
    then show "count_list (calls_since w w') (SetAttribute n ''src'' (dataset_src w n))
                = (if n \<in> set (reported bs) then 1 else 0)"
      unfolding calls count_list_loads .
  qed
  have obs: "set (observed w' LazyObserver) =
            set (observed (initLazyImages w) LazyObserver) - set (reported bs)"
    unfolding w' lazy_fold_observed reported_def ..
  have fin: "\<forall>n\<in>set (reported bs).
              getAttribute w' n ''src'' = getAttribute w n ''data-src''
            \<and> getAttribute w' n ''data-src'' = None
            \<and> n \<notin> set (observed w' LazyObserver)"
  proof
    fix n assume n: "n \<in> set (reported bs)"
    then obtain v where v: "getAttribute w n ''data-src'' = Some v"
      using sub selected by blast
    have s: "store w' n = loaded w n"
      using st [of n] n by simp
    have "getAttribute w' n ''src'' = Some v"
      using v by (simp add: getAttribute_def s loaded_def dataset_src_def)
    moreover have "getAttribute w' n ''data-src'' = None"
      by (simp add: getAttribute_def s loaded_def)
    moreover have "n \<notin> set (observed w' LazyObserver)"
      using n obs by simp
    ultimately show "getAttribute w' n ''src'' = getAttribute w n ''data-src''
            \<and> getAttribute w' n ''data-src'' = None
            \<and> n \<notin> set (observed w' LazyObserver)"
      using v by simp
  qed
  have unrep: "\<forall>n. n \<notin> set (reported bs) \<longrightarrow> store w' n = store w n"
    by (simp add: st)
  have opts: "querySelectorAll w ''.project-card__image[data-src]'' \<noteq> [] \<longrightarrow>
            map_option fst (observers (initLazyImages w) LazyObserver)
              = Some (RootMargin ''200px'')"
    using init(4) by blast
  from calls d sub cnt fin unrep init(3) opts show ?thesis
    by (intro conjI) assumption+
qed

theorem lazy_image_loads_once_witness:
  "observers lazy_world LazyObserver = None
   \<and> getAttribute lazy_world 5 ''data-src'' = Some ''a.png''
   \<and> getAttribute lazy_world 6 ''data-src'' = Some ''b.png''
   \<and> run_batches LazyObserver lazy_callback lazy_batches (initLazyImages lazy_world)
        = Some (fold lazy_entry (concat lazy_batches) (initLazyImages lazy_world))
   \<and> once_per_batch lazy_batches
   \<and> calls_since lazy_world (fold lazy_entry (concat lazy_batches) (initLazyImages lazy_world))
        = [SetAttribute 5 ''src'' ''a.png'', RemoveAttribute 5 ''data-src'']
   \<and> getAttribute (fold lazy_entry (concat lazy_batches) (initLazyImages lazy_world)) 5 ''src''
        = Some ''a.png''
   \<and> getAttribute (fold lazy_entry (concat lazy_batches) (initLazyImages lazy_world)) 5 ''data-src''
        = None
   \<and> 5 \<notin> set (observed (fold lazy_entry (concat lazy_batches) (initLazyImages lazy_world))
                 LazyObserver)
   \<and> store (fold lazy_entry (concat lazy_batches) (initLazyImages lazy_world)) 6
        = store lazy_world 6"
proof -
  define wf where "wf = fold lazy_entry (concat lazy_batches) (initLazyImages lazy_world)"
  have n: "observers lazy_world LazyObserver = None"
    by (simp add: lazy_world_def blank_world_def)
  have q: "querySelectorAll lazy_world ''.project-card__image[data-src]'' = [5, 6]"
    by (simp add: querySelectorAll_def lazy_world_def blank_world_def)
  have a: "getAttribute lazy_world 5 ''data-src'' = Some ''a.png''"
    "getAttribute lazy_world 6 ''data-src'' = Some ''b.png''"
    by (simp_all add: getAttribute_def lazy_world_def blank_world_def)
  have o: "set (observed (initLazyImages lazy_world) LazyObserver) = {5, 6}"
    using initLazyImages_facts(3) [OF n] q by simp
  have run: "run_batches LazyObserver lazy_callback lazy_batches (initLazyImages lazy_world)
        = Some wf"
    unfolding wf_def
    by (simp add: lazy_batches_def deliverable_def o lazy_callback_def lazy_entry_def)
  have once: "once_per_batch lazy_batches"
    by (simp add: once_per_batch_def lazy_batches_def)
  have rep: "reported lazy_batches = [5]"
    by (simp add: reported_def lazy_batches_def)
  have sel: "\<forall>n\<in>set (querySelectorAll lazy_world ''.project-card__image[data-src]'').
                     getAttribute lazy_world n ''data-src'' \<noteq> None"
    using a by (simp add: q)
  have ds: "dataset_src lazy_world 5 = ''a.png''"
    by (simp add: dataset_src_def a)
  note T = lazy_image_loads_once [OF n sel run once, unfolded rep]
  have c1: "calls_since lazy_world wf
        = [SetAttribute 5 ''src'' ''a.png'', RemoveAttribute 5 ''data-src'']"
    using T by (simp add: ds)
  have c2: "getAttribute wf 5 ''src'' = Some ''a.png''"
    "getAttribute wf 5 ''data-src'' = None" "5 \<notin> set (observed wf LazyObserver)"
    using T a by simp_all
  have c3: "store wf 6 = store lazy_world 6"
    using T by simp
  show ?thesis
    unfolding wf_def [symmetric] using n a run once c1 c2 c3 by simp
qed

subsection \<open>The typing effect from startup\<close>

lemma length_trim: "length (trim s) \<le> length s"
proof -
  have "length (dropWhile is_whitespace (rev (dropWhile is_whitespace s)))
          \<le> length (rev (dropWhile is_whitespace s))"
    by (rule length_dropWhile_le)
  also have "\<dots> \<le> length s"
    by (simp add: length_dropWhile_le)
  finally show ?thesis by (simp add: trim_def)
qed

lemma initTyping_facts:
  assumes "motionOK w" and "querySelector w ''.hero__tagline'' = Some n"
  shows "typing (initTyping w) = Some \<lparr>el = n, fullText = trim (text_of w n), charIndex = 0\<rparr>"
    and "text_of (initTyping w) m = (if m = n then [] else text_of w m)"
    and "has_class (initTyping w) m c = (has_class w m c \<or> (m = n \<and> c = ''typing-active''))"
    and "timers (initTyping w) = timers w"
    and "now (initTyping w) = now w"
    and "trace (initTyping w) = trace w @ [SetTextContent n [], ClassListAdd n ''typing-active'']"
  using assms
  by (auto simp: initTyping_def Let_def observe_def new_observer_def text_of_def
        has_class_def set_textContent_def classList_add_def split: option.splits)

lemma quiet_run:
  "quiet es \<Longrightarrow> timers w = [] \<Longrightarrow> typing_run es w = Some w' \<Longrightarrow>
     w' = w\<lparr>now := now w'\<rparr> \<and> now w \<le> now w'"
proof (induction es arbitrary: w)
  case Nil
  then show ?case by simp
next
  case (Cons e es)
  show ?case
  proof (cases e)
    case (Wait d)
    let ?v = "w\<lparr>now := now w + d\<rparr>"
    have adv: "advance (now w + d) w = ?v"
      using Cons.prems(2) by (simp add: advance_idle max_def)
    have "w' = ?v\<lparr>now := now w'\<rparr> \<and> now ?v \<le> now w'"
      using Cons.prems Wait adv by (intro Cons.IH) simp_all
    then show ?thesis by simp
  next
    case (Report b)
    have cb: "typing_callback b w = Inr w"
      using Cons.prems(1,3) Report
      by (auto simp: typing_callback_def first_intersecting_def deliverable_def
            split: list.splits if_splits)
    show ?thesis
      using Cons.prems Report cb by (intro Cons.IH) (auto split: if_splits)
  qed
qed

lemma report_starts:
  assumes "first_intersecting b" and "typing_run [Report b] w = Some v"
  shows "v = disconnect TypingObserver (setTimeout TypeTimer 600 w)"
  using assms
  by (auto simp: typing_callback_def first_intersecting_def split: list.splits if_splits)

lemma disconnect_fields [simp]:
  "timers (disconnect ob w) = timers w" "now (disconnect ob w) = now w"
  "typing (disconnect ob w) = typing w" "store (disconnect ob w) = store w"
  "trace (disconnect ob w) = trace w"
  by (simp_all add: disconnect_def split: option.splits)

lemma observed_disconnect [simp]:
  "observed (disconnect ob w) ob' = (if ob' = ob then [] else observed w ob')"
  by (simp add: disconnect_def observed_def split: option.splits)

text \<open>
  The timeline of the effect. The startup world \<open>w\<close> has the tagline \<open>n\<close> and no
  timer; after a quiet stretch the observer reports an intersection when the clock
  shows \<open>now w1\<close>. From the world \<open>w2\<close> right after this report, the state at any
  time \<open>t\<close> is \<open>advance t w2\<close>.
\<close>

lemma typing_timeline:
  assumes "motionOK w" and "querySelector w ''.hero__tagline'' = Some n" and "timers w = []"
    and "quiet pre" and "typing_run pre (initTyping w) = Some w1"
    and "first_intersecting b" and "typing_run [Report b] w1 = Some w2"
  shows "text_of (advance t w2) n =
           take (if t < now w1 + 600 then 0
                 else min (length (trim (text_of w n))) ((t - (now w1 + 600)) div 42 + 1))
             (trim (text_of w n))"
    and "has_class (advance t w2) n ''typing-active''
           = (t < now w1 + 600 + 42 * length (trim (text_of w n)) + 2200)"
    and "has_class (advance t w2) n ''typing-done''
           = (has_class w n ''typing-done''
              \<or> now w1 + 600 + 42 * length (trim (text_of w n)) + 2200 \<le> t)"
    and "text_of w1 n = [] \<and> has_class w1 n ''typing-active'' \<and> timers w1 = []"
proof -
  let ?c = "\<lparr>el = n, fullText = trim (text_of w n), charIndex = 0\<rparr>"
  note init = initTyping_facts [OF assms(1,2)]
  have t0: "timers (initTyping w) = []" using init(4) assms(3) by simp
  from quiet_run [OF assms(4) t0 assms(5)]
  have w1: "w1 = (initTyping w)\<lparr>now := now w1\<rparr>" ..
  have e: "typing w1 = typing (initTyping w)" "timers w1 = timers (initTyping w)"
    "store w1 = store (initTyping w)"
    by (subst w1, simp)+
  have f1: "typing w1 = Some ?c" "timers w1 = []" "text_of w1 n = []"
    "\<And>x. has_class w1 n x = (has_class w n x \<or> x = ''typing-active'')"
    using init(1) t0 init(2) [of n] init(3) [of n]
    by (simp_all add: e text_of_def has_class_def)
  show "text_of w1 n = [] \<and> has_class w1 n ''typing-active'' \<and> timers w1 = []"
    using f1 by simp
  have w2: "w2 = disconnect TypingObserver (setTimeout TypeTimer 600 w1)"
    using assms(6,7) by (rule report_starts)
  have p1: "typing w2 = Some ?c" and p3: "timers w2 = [(now w1 + 600, TypeTimer)]"
    and p4: "now w2 \<le> now w1 + 600"
    and tx: "text_of w2 n = []"
    and hc: "\<And>x. has_class w2 n x = (has_class w n x \<or> x = ''typing-active'')"
    using f1 by (simp_all add: w2 setTimeout_def text_of_def has_class_def)
  have p2: "charIndex ?c \<le> length (fullText ?c)" by simp
  have p5: "text_of w2 (el ?c) = take (charIndex ?c) (fullText ?c)"
    using tx by simp
  note ph = typing_phase [OF p1 p2 p3 p4 p5]
  show "text_of (advance t w2) n =
           take (if t < now w1 + 600 then 0
                 else min (length (trim (text_of w n))) ((t - (now w1 + 600)) div 42 + 1))
             (trim (text_of w n))"
    using ph [of t n "''x''"] by simp
  show "has_class (advance t w2) n ''typing-active''
           = (t < now w1 + 600 + 42 * length (trim (text_of w n)) + 2200)"
    using ph [of t n "''typing-active''"] hc [of "''typing-active''"] by simp
  show "has_class (advance t w2) n ''typing-done''
           = (has_class w n ''typing-done''
              \<or> now w1 + 600 + 42 * length (trim (text_of w n)) + 2200 \<le> t)"
    using ph [of t n "''typing-done''"] hc [of "''typing-done''"] by auto
qed

lemma tagline_world_facts:
  "motionOK (tagline_world txt)"
  "querySelector (tagline_world txt) ''.hero__tagline'' = Some 0"
  "timers (tagline_world txt) = []"
  "text_of (tagline_world txt) 0 = txt"
  "has_class (tagline_world txt) 0 c = False"
  "now (initTyping (tagline_world txt)) = 0"
  "observed (initTyping (tagline_world txt)) TypingObserver = [1]"
  by (simp_all add: tagline_world_def blank_world_def blank_element_def motionOK_def
        querySelector_def text_of_def has_class_def initTyping_def Let_def closest_def
        observe_def new_observer_def observed_def set_textContent_def classList_add_def
        emit_def modify_def)

lemma tagline_world_report:
  "typing_run [Report (hero_report True)] (initTyping (tagline_world txt))
     = Some (after_report txt)"
  by (simp add: deliverable_def tagline_world_facts hero_report_def typing_callback_def
        after_report_def)

text \<open>
  C1, as stated, fails twice. The tagline \<^verbatim>\<open>ab\<close> is complete 642 ms after the report,
  when its last character is appended; 2200 ms later \<^verbatim>\<open>typing-active\<close> is still there
  and \<^verbatim>\<open>typing-done\<close> is not: the dwell starts one tick later, when \<^verbatim>\<open>type\<close> finds no
  character left. And the tagline \<^verbatim>\<open>" ab"\<close>, of length 3, shows \<^verbatim>\<open>ab\<close> after 600 + 3
  \<times> 42 ms, not the original text: the effect types the trimmed text.
\<close>

theorem typing_effect_counterexample:
  "typing_run [Report (hero_report True)] (initTyping (tagline_world ''ab''))
     = Some (after_report ''ab'')
   \<and> text_of (advance 641 (after_report ''ab'')) 0 = ''a''
   \<and> text_of (advance 642 (after_report ''ab'')) 0 = ''ab''
   \<and> has_class (advance (642 + 2200) (after_report ''ab'')) 0 ''typing-active''
   \<and> \<not> has_class (advance (642 + 2200) (after_report ''ab'')) 0 ''typing-done''
   \<and> typing_run [Report (hero_report True)] (initTyping (tagline_world '' ab''))
     = Some (after_report '' ab'')
   \<and> length (text_of (tagline_world '' ab'') 0) = 3
   \<and> text_of (advance (600 + 3 * 42) (after_report '' ab'')) 0 \<noteq> text_of (tagline_world '' ab'') 0"
proof -
  have fi: "first_intersecting (hero_report True)"
    by (simp add: first_intersecting_def hero_report_def)
  have run0: "typing_run [] (initTyping (tagline_world s)) = Some (initTyping (tagline_world s))"
    for s by simp
  have q0: "quiet []" by simp
  note tl = typing_timeline [OF tagline_world_facts(1,2,3) q0 run0 fi tagline_world_report,
      unfolded tagline_world_facts, simplified]
  have tr: "trim ''ab'' = ''ab''" "trim '' ab'' = ''ab''"
    by (simp_all add: trim_def is_whitespace_def)
  have t: "text_of (advance 641 (after_report ''ab'')) 0 = ''a''
     \<and> text_of (advance 642 (after_report ''ab'')) 0 = ''ab''
     \<and> has_class (advance (642 + 2200) (after_report ''ab'')) 0 ''typing-active''
     \<and> \<not> has_class (advance (642 + 2200) (after_report ''ab'')) 0 ''typing-done''
     \<and> length (text_of (tagline_world '' ab'') 0) = 3
     \<and> text_of (advance (600 + 3 * 42) (after_report '' ab'')) 0
         \<noteq> text_of (tagline_world '' ab'') 0"
    by (simp add: tl tr tagline_world_facts)
  show ?thesis
    using t by (simp only: tagline_world_report simp_thms)
qed

text \<open>
  C1 (amended), on an ideal clock. Let the tagline's trimmed original text have length
  \<open>M\<close> and let the observer first report the hero as intersecting at time \<open>t0\<close>. At
  every time \<open>t\<close> from then on the tagline shows the first
  \<open>min M ((t - (t0 + 600)) div 42 + 1)\<close> characters of the trimmed text, and nothing
  before \<open>t0 + 600\<close>; so at \<open>t0 + 600 + N \<times> 42\<close>, for \<open>N\<close> the length of the original
  text, and ever after it shows the trimmed original text. The class
  \<^verbatim>\<open>typing-active\<close> is there from startup until \<open>t0 + 600 + 42 \<times> M + 2200\<close>, the
  instant at which it is removed and \<^verbatim>\<open>typing-done\<close> is added: 2200 ms after the
  tick of \<^verbatim>\<open>type\<close> that finds no character left.
\<close>

theorem typing_effect_timeline:
  assumes "motionOK w" and "querySelector w ''.hero__tagline'' = Some n" and "timers w = []"
    and "quiet pre" and "typing_run pre (initTyping w) = Some w1"
    and "first_intersecting b" and "typing_run [Report b] w1 = Some w2"
  shows "(\<forall>t. text_of (advance t w2) n =
              take (if t < now w1 + 600 then 0
                    else min (length (trim (text_of w n))) ((t - (now w1 + 600)) div 42 + 1))
                (trim (text_of w n)))
       \<and> (\<forall>t\<ge>now w1 + 600 + length (text_of w n) * 42.
              text_of (advance t w2) n = trim (text_of w n))
       \<and> has_class w1 n ''typing-active''
       \<and> (\<forall>t. has_class (advance t w2) n ''typing-active''
                = (t < now w1 + 600 + 42 * length (trim (text_of w n)) + 2200))
       \<and> (\<forall>t. has_class (advance t w2) n ''typing-done''
                = (has_class w n ''typing-done''
                   \<or> now w1 + 600 + 42 * length (trim (text_of w n)) + 2200 \<le> t))"
proof -
  note tl = typing_timeline [OF assms]
  have full: "text_of (advance t w2) n = trim (text_of w n)"
    if "now w1 + 600 + length (text_of w n) * 42 \<le> t" for t
  proof -
    let ?M = "length (trim (text_of w n))"
    have "?M * 42 \<le> t - (now w1 + 600)"
      using that length_trim [of "text_of w n"] by simp
    then have "?M \<le> (t - (now w1 + 600)) div 42"
      by (simp add: less_eq_div_iff_mult_less_eq)
    then show ?thesis
      using that tl(1) [of t] by simp
  qed
  show ?thesis
    using tl(1) full tl(4) tl(2) tl(3) by (intro conjI allI impI) simp_all
qed

theorem typing_effect_timeline_witness:
  "motionOK (tagline_world '' ab'')
   \<and> querySelector (tagline_world '' ab'') ''.hero__tagline'' = Some 0
   \<and> timers (tagline_world '' ab'') = []
   \<and> quiet [Wait 100, Report (hero_report False)]
   \<and> typing_run [Wait 100, Report (hero_report False)] (initTyping (tagline_world '' ab''))
        = Some ((initTyping (tagline_world '' ab''))\<lparr>now := 100\<rparr>)
   \<and> first_intersecting (hero_report True)
   \<and> typing_run [Report (hero_report True)] ((initTyping (tagline_world '' ab''))\<lparr>now := 100\<rparr>)
        = Some (disconnect TypingObserver
                 (setTimeout TypeTimer 600 ((initTyping (tagline_world '' ab''))\<lparr>now := 100\<rparr>)))
   \<and> map (\<lambda>t. text_of (advance t (disconnect TypingObserver
                 (setTimeout TypeTimer 600 ((initTyping (tagline_world '' ab''))\<lparr>now := 100\<rparr>)))) 0)
         [699, 700, 741, 742, 826]
       = [[], ''a'', ''a'', ''ab'', ''ab'']
   \<and> map (\<lambda>t. has_class (advance t (disconnect TypingObserver
                 (setTimeout TypeTimer 600 ((initTyping (tagline_world '' ab''))\<lparr>now := 100\<rparr>))))
               0 ''typing-active'')
         [100, 2983, 2984]
       = [True, True, False]
   \<and> map (\<lambda>t. has_class (advance t (disconnect TypingObserver
                 (setTimeout TypeTimer 600 ((initTyping (tagline_world '' ab''))\<lparr>now := 100\<rparr>))))
               0 ''typing-done'')
         [100, 2983, 2984]
       = [False, False, True]"
proof -
  define w1 where "w1 = (initTyping (tagline_world '' ab''))\<lparr>now := 100\<rparr>"
  define w2 where "w2 = disconnect TypingObserver (setTimeout TypeTimer 600 w1)"
  have q: "quiet [Wait 100, Report (hero_report False)]"
    by (simp add: first_intersecting_def hero_report_def)
  have t0: "timers (initTyping (tagline_world '' ab'')) = []"
    using initTyping_facts(4) [OF tagline_world_facts(1,2)] tagline_world_facts(3) by simp
  have adv: "advance 100 (initTyping (tagline_world '' ab'')) = w1"
    unfolding w1_def using t0 by (simp add: advance_idle tagline_world_facts)
  have ob: "observed w1 TypingObserver = [1]"
    using tagline_world_facts(7) [of "'' ab''"] by (simp add: w1_def observed_def)
  have r1: "typing_run [Wait 100, Report (hero_report False)] (initTyping (tagline_world '' ab''))
        = Some w1"
    by (simp add: tagline_world_facts adv deliverable_def ob hero_report_def typing_callback_def)
  have fi: "first_intersecting (hero_report True)"
    by (simp add: first_intersecting_def hero_report_def)
  have r2: "typing_run [Report (hero_report True)] w1 = Some w2"
    by (simp add: deliverable_def ob hero_report_def typing_callback_def w2_def)
  have n1: "now w1 = 100" by (simp add: w1_def)
  have tr: "trim '' ab'' = ''ab''"
    by (simp add: trim_def is_whitespace_def)
  note T = typing_effect_timeline [OF tagline_world_facts(1,2,3) q r1 fi r2,
      unfolded tagline_world_facts n1 tr, simplified]
  have c1: "map (\<lambda>t. text_of (advance t w2) 0) [699, 700, 741, 742, 826]
       = [[], ''a'', ''a'', ''ab'', ''ab'']"
    using T by simp
  have c2: "map (\<lambda>t. has_class (advance t w2) 0 ''typing-active'') [100, 2983, 2984]
       = [True, True, False]"
    using T by simp
  have c3: "map (\<lambda>t. has_class (advance t w2) 0 ''typing-done'') [100, 2983, 2984]
       = [False, False, True]"
    using T by simp
  show ?thesis
    unfolding w1_def [symmetric] w2_def [symmetric]
    using tagline_world_facts(1,2,3) [of "'' ab''"] q r1 fi r2 c1 c2 c3 by simp
qed

text \<open>
  C10: with motion allowed and a tagline \<open>n\<close>, \<^verbatim>\<open>initTyping\<close> itself empties the
  tagline's text and adds \<^verbatim>\<open>typing-active\<close>. As long as no report of the observer
  says that the hero intersects, whatever time passes, the text stays empty and
  \<^verbatim>\<open>typing-active\<close> stays. And once a report says so, the text typed in the end is the
  trimmed original text.
\<close>

theorem typing_startup_truncation:
  assumes "motionOK w" and "querySelector w ''.hero__tagline'' = Some n" and "timers w = []"
  shows "text_of (initTyping w) n = [] \<and> has_class (initTyping w) n ''typing-active''
       \<and> (\<forall>es w1. quiet es \<and> typing_run es (initTyping w) = Some w1 \<longrightarrow>
              text_of w1 n = [] \<and> has_class w1 n ''typing-active'' \<and> timers w1 = [])
       \<and> (\<forall>pre w1 b w2 t.
              quiet pre \<and> typing_run pre (initTyping w) = Some w1
              \<and> first_intersecting b \<and> typing_run [Report b] w1 = Some w2
              \<and> now w1 + 600 + 42 * length (trim (text_of w n)) \<le> t \<longrightarrow>
              text_of (advance t w2) n = trim (text_of w n))"
proof (intro conjI allI impI)
  note init = initTyping_facts [OF assms(1,2)]
  show "text_of (initTyping w) n = []" and "has_class (initTyping w) n ''typing-active''"
    by (simp_all add: init)
  have t0: "timers (initTyping w) = []" using init(4) assms(3) by simp
  {
    fix es w1
    assume a: "quiet es \<and> typing_run es (initTyping w) = Some w1"
    then have w1: "w1 = (initTyping w)\<lparr>now := now w1\<rparr>"
      using quiet_run [OF _ t0] by blast
    have e: "timers w1 = timers (initTyping w)" "store w1 = store (initTyping w)"
      by (subst w1, simp)+
    show "text_of w1 n = []" and "has_class w1 n ''typing-active''" and "timers w1 = []"
      using init(2) [of n] init(3) [of n "''typing-active''"] t0
      by (simp_all add: e text_of_def has_class_def)
  }
  {
    fix pre w1 b w2 t
    assume a: "quiet pre \<and> typing_run pre (initTyping w) = Some w1
              \<and> first_intersecting b \<and> typing_run [Report b] w1 = Some w2
              \<and> now w1 + 600 + 42 * length (trim (text_of w n)) \<le> t"
    then have tl: "text_of (advance t w2) n =
           take (if t < now w1 + 600 then 0
                 else min (length (trim (text_of w n))) ((t - (now w1 + 600)) div 42 + 1))
             (trim (text_of w n))"
      using typing_timeline(1) [OF assms] by blast
    let ?M = "length (trim (text_of w n))"
    have le: "now w1 + 600 + 42 * ?M \<le> t"
      using a by blast
    then have "?M * 42 \<le> t - (now w1 + 600)"
      by simp
    then have "?M \<le> (t - (now w1 + 600)) div 42"
      by (simp add: less_eq_div_iff_mult_less_eq)
    then show "text_of (advance t w2) n = trim (text_of w n)"
      using le tl by simp
  }
qed

theorem typing_startup_truncation_witness:
  "motionOK (tagline_world '' ab '')
   \<and> querySelector (tagline_world '' ab '') ''.hero__tagline'' = Some 0
   \<and> timers (tagline_world '' ab '') = []
   \<and> text_of (tagline_world '' ab '') 0 = '' ab ''
   \<and> text_of (initTyping (tagline_world '' ab '')) 0 = []
   \<and> has_class (initTyping (tagline_world '' ab '')) 0 ''typing-active''
   \<and> quiet [Wait 5000, Report (hero_report False), Wait 100000]
   \<and> typing_run [Wait 5000, Report (hero_report False), Wait 100000]
        (initTyping (tagline_world '' ab ''))
        = Some ((initTyping (tagline_world '' ab ''))\<lparr>now := 105000\<rparr>)
   \<and> text_of ((initTyping (tagline_world '' ab ''))\<lparr>now := 105000\<rparr>) 0 = []
   \<and> has_class ((initTyping (tagline_world '' ab ''))\<lparr>now := 105000\<rparr>) 0 ''typing-active''
   \<and> quiet []
   \<and> first_intersecting (hero_report True)
   \<and> typing_run [Report (hero_report True)] (initTyping (tagline_world '' ab ''))
        = Some (after_report '' ab '')
   \<and> text_of (advance 684 (after_report '' ab '')) 0 = ''ab''"
proof -
  define w0 where "w0 = initTyping (tagline_world '' ab '')"
  have q: "quiet [Wait 5000, Report (hero_report False), Wait 100000]"
    by (simp add: first_intersecting_def hero_report_def)
  have t0: "timers w0 = []"
    unfolding w0_def
    using initTyping_facts(4) [OF tagline_world_facts(1,2)] tagline_world_facts(3) by simp
  have n0: "now w0 = 0" by (simp add: w0_def tagline_world_facts)
  have adv1: "advance 5000 w0 = w0\<lparr>now := 5000\<rparr>"
    using t0 by (simp add: advance_idle n0)
  have adv2: "advance 105000 (w0\<lparr>now := 5000\<rparr>) = w0\<lparr>now := 105000\<rparr>"
    using t0 by (simp add: advance_idle)
  have ob: "observed (w0\<lparr>now := 5000\<rparr>) TypingObserver = [1]"
    using tagline_world_facts(7) [of "'' ab ''"] by (simp add: w0_def observed_def)
  have r1: "typing_run [Wait 5000, Report (hero_report False), Wait 100000] w0
        = Some (w0\<lparr>now := 105000\<rparr>)"
    by (simp add: n0 adv1 adv2 deliverable_def ob hero_report_def typing_callback_def)
  have fi: "first_intersecting (hero_report True)"
    by (simp add: first_intersecting_def hero_report_def)
  have r0: "typing_run [] w0 = Some w0" by simp
  have r2: "typing_run [Report (hero_report True)] w0 = Some (after_report '' ab '')"
    unfolding w0_def by (rule tagline_world_report)
  have tr: "trim '' ab '' = ''ab''"
    by (simp add: trim_def is_whitespace_def)
  note T = typing_startup_truncation [OF tagline_world_facts(1,2,3), of "'' ab ''",
      folded w0_def, unfolded tagline_world_facts tr]
  have c1: "text_of w0 0 = [] \<and> has_class w0 0 ''typing-active''"
    using T by blast
  have c2: "text_of (w0\<lparr>now := 105000\<rparr>) 0 = []
            \<and> has_class (w0\<lparr>now := 105000\<rparr>) 0 ''typing-active''"
    using T q r1 by blast
  have "quiet [] \<and> typing_run [] w0 = Some w0 \<and> first_intersecting (hero_report True)
        \<and> typing_run [Report (hero_report True)] w0 = Some (after_report '' ab '')
        \<and> now w0 + 600 + 42 * length ''ab'' \<le> 684"
    using fi r2 n0 by simp
  then have c3: "text_of (advance 684 (after_report '' ab '')) 0 = ''ab''"
    using T by blast
  show ?thesis
    unfolding w0_def [symmetric]
    using tagline_world_facts(1,2,3,4) [of "'' ab ''"] q r1 fi r2 c1 c2 c3
    by (simp del: typing_run.simps)
qed

subsection \<open>Behaviours without their elements\<close>

lemma forEach_Nil [simp]: "forEach f [] w = w"
  by (simp add: forEach_def)

lemma silent_no_op_refl [simp]: "silent_no_op w w"
  by (simp add: silent_no_op_def)

text \<open>
  C9: each of the eleven behaviours, initialised on a document without an element for
  its selectors, leaves the world as it is: no element is changed, no listener or
  timer registered, no host call made, nothing logged; the initialisers are total, so
  nothing is thrown. This holds whatever the other selectors match. The reveal
  behaviour with motion allowed still constructs its observer, which then watches
  nothing.
\<close>

theorem absent_elements_no_op:
  \<open>(querySelector w ''.navbar__toggle'' = None \<or> getElementById w ''mobile-menu'' = None
      \<longrightarrow> initMobileMenu w = w)
   \<and> (querySelectorAll w ''a[href^="#"]'' = [] \<longrightarrow> initSmoothScroll w = w)
   \<and> (querySelectorAll w ''section[id]'' = [] \<or> querySelectorAll w ''.navbar__link'' = []
      \<longrightarrow> initActiveNav w = w)
   \<and> (querySelector w ''.navbar'' = None \<longrightarrow> initNavbarScroll w = w)
   \<and> (querySelectorAll w ''.animate-wrapper'' = []
      \<longrightarrow> silent_no_op w (initReveal w)
          \<and> initReveal w = (if motionOK w then new_observer RevealObserver (Threshold 0.12) w else w))
   \<and> (querySelectorAll w ''.hero__blob'' = [] \<and> querySelectorAll w ''.bg-layers__gradient'' = []
      \<longrightarrow> initParallax w = w)
   \<and> (querySelector w ''.hero__tagline'' = None \<longrightarrow> initTyping w = w)
   \<and> (querySelectorAll w ''.hero__btn, .contact__submit'' = [] \<longrightarrow> initRipple w = w)
   \<and> (querySelectorAll w ''.project-card'' = [] \<longrightarrow> initTilt w = w)
   \<and> (querySelectorAll w ''.project-card__link, .footer__social-link, .navbar__link'' = []
      \<longrightarrow> initMagnetic w = w)
   \<and> (querySelectorAll w ''.project-card__image[data-src]'' = [] \<longrightarrow> initLazyImages w = w)\<close>
proof -
  have menu: "querySelector w ''.navbar__toggle'' = None \<or> getElementById w ''mobile-menu'' = None
      \<longrightarrow> initMobileMenu w = w"
    by (auto simp: initMobileMenu_def split: option.splits)
  have scroll: \<open>querySelectorAll w ''a[href^="#"]'' = [] \<longrightarrow> initSmoothScroll w = w\<close>
    by (simp add: initSmoothScroll_def)
  have nav: "querySelectorAll w ''section[id]'' = [] \<or> querySelectorAll w ''.navbar__link'' = []
      \<longrightarrow> initActiveNav w = w"
    by (auto simp: initActiveNav_def Let_def)
  have navbar: "querySelector w ''.navbar'' = None \<longrightarrow> initNavbarScroll w = w"
    by (simp add: initNavbarScroll_def)
  have reveal: "querySelectorAll w ''.animate-wrapper'' = []
      \<longrightarrow> silent_no_op w (initReveal w)
          \<and> initReveal w = (if motionOK w then new_observer RevealObserver (Threshold 0.12) w else w)"
    by (simp add: initReveal_def silent_no_op_def new_observer_def observed_def)
  have parallax: "querySelectorAll w ''.hero__blob'' = [] \<and> querySelectorAll w ''.bg-layers__gradient'' = []
      \<longrightarrow> initParallax w = w"
    by (simp add: initParallax_def)
  have typing: "querySelector w ''.hero__tagline'' = None \<longrightarrow> initTyping w = w"
    by (simp add: initTyping_def)
  have ripple: "querySelectorAll w ''.hero__btn, .contact__submit'' = [] \<longrightarrow> initRipple w = w"
    by (simp add: initRipple_def)
  have tilt: "querySelectorAll w ''.project-card'' = [] \<longrightarrow> initTilt w = w"
    by (simp add: initTilt_def)
  have magnetic: "querySelectorAll w ''.project-card__link, .footer__social-link, .navbar__link'' = []
      \<longrightarrow> initMagnetic w = w"
    by (simp add: initMagnetic_def)
  have lazy: "querySelectorAll w ''.project-card__image[data-src]'' = [] \<longrightarrow> initLazyImages w = w"
    by (simp add: initLazyImages_def)
  from menu scroll nav navbar reveal parallax typing ripple tilt magnetic lazy
  show ?thesis by (intro conjI) assumption+
qed

theorem absent_elements_no_op_witness:
  \<open>querySelector blank_world ''.navbar__toggle'' = None
   \<and> initMobileMenu blank_world = blank_world
   \<and> querySelectorAll blank_world ''a[href^="#"]'' = []
   \<and> initSmoothScroll blank_world = blank_world
   \<and> querySelectorAll blank_world ''section[id]'' = []
   \<and> initActiveNav blank_world = blank_world
   \<and> querySelector blank_world ''.navbar'' = None
   \<and> initNavbarScroll blank_world = blank_world
   \<and> querySelectorAll blank_world ''.animate-wrapper'' = []
   \<and> silent_no_op blank_world (initReveal blank_world)
   \<and> querySelectorAll blank_world ''.hero__blob'' = []
   \<and> querySelectorAll blank_world ''.bg-layers__gradient'' = []
   \<and> initParallax blank_world = blank_world
   \<and> querySelector blank_world ''.hero__tagline'' = None
   \<and> initTyping blank_world = blank_world
   \<and> querySelectorAll blank_world ''.hero__btn, .contact__submit'' = []
   \<and> initRipple blank_world = blank_world
   \<and> querySelectorAll blank_world ''.project-card'' = []
   \<and> initTilt blank_world = blank_world
   \<and> querySelectorAll blank_world ''.project-card__link, .footer__social-link, .navbar__link'' = []
   \<and> initMagnetic blank_world = blank_world
   \<and> querySelectorAll blank_world ''.project-card__image[data-src]'' = []
   \<and> initLazyImages blank_world = blank_world\<close>
proof -
  have q: "querySelectorAll blank_world s = []" "querySelector blank_world s = None" for s
    by (simp_all add: querySelectorAll_def querySelector_def blank_world_def)
  note T = absent_elements_no_op [of blank_world]
  have r: "silent_no_op blank_world (initReveal blank_world)"
    using T q(1) [of "''.animate-wrapper''"] by blast
  have rest: "initMobileMenu blank_world = blank_world" "initSmoothScroll blank_world = blank_world"
    "initActiveNav blank_world = blank_world" "initNavbarScroll blank_world = blank_world"
    "initParallax blank_world = blank_world" "initTyping blank_world = blank_world"
    "initRipple blank_world = blank_world" "initTilt blank_world = blank_world"
    "initMagnetic blank_world = blank_world" "initLazyImages blank_world = blank_world"
    using T by (simp_all add: q)
  show ?thesis
    by (simp only: q r rest simp_thms)
qed

subsection \<open>Registered listeners\<close>

lemma listeners_emit [simp]: "listeners (emit x w) = listeners w"
  by (simp add: emit_def)

lemma listeners_modify [simp]: "listeners (modify n f w) = listeners w"
  by (simp add: modify_def)

lemma listeners_addEventListener [simp]:
  "listeners (addEventListener t ev h w) = listeners w @ [(t, ev, h)]"
  by (simp add: addEventListener_def)

lemma queryAll_addEventListener [simp]: "queryAll (addEventListener t ev h w) = queryAll w"
  by (simp add: addEventListener_def)

lemma listeners_primitives [simp]:
  "listeners (classList_add n c w) = listeners w"
  "listeners (classList_remove n c w) = listeners w"
  "listeners (set_style n p x w) = listeners w"
  "listeners (set_textContent n s w) = listeners w"
  "listeners (observe ob n w) = listeners w"
  "listeners (new_observer ob opts w) = listeners w"
  by (simp_all add: classList_add_def classList_remove_def set_style_def set_textContent_def
        observe_def new_observer_def split: option.splits)

lemma forEach_addEventListener:
  "listeners (forEach (\<lambda>n. addEventListener (T n) ev (H n)) xs w)
     = listeners w @ map (\<lambda>n. (T n, ev, H n)) xs"
  unfolding forEach_def by (induction xs arbitrary: w) auto

lemma queryAll_forEach_addEventListener [simp]:
  "queryAll (forEach (\<lambda>n. addEventListener (T n) ev (H n)) xs w) = queryAll w"
  unfolding forEach_def by (induction xs arbitrary: w) auto

lemma forEach_listeners_mono:
  assumes "\<And>n v. set (listeners v) \<subseteq> set (listeners (f n v))"
  shows "set (listeners w) \<subseteq> set (listeners (forEach f xs w))"
  unfolding forEach_def
proof (induction xs arbitrary: w)
  case Nil
  then show ?case by simp
next
  case (Cons x xs)
  show ?case using assms [of w x] Cons [of "f x w"] by auto
qed

lemma listeners_initMobileMenu:
  assumes "querySelector w ''.navbar__toggle'' = Some t" and "getElementById w ''mobile-menu'' = Some m"
  shows "listeners (initMobileMenu w) =
           listeners w @ (Element t, ''click'', ToggleClick t m)
             # map (\<lambda>link. (Element link, ''click'', MobileLinkClick t m))
                 (querySelectorAll_in w m ''.navbar__mobile-link'')"
  using assms
  by (simp add: initMobileMenu_def forEach_addEventListener querySelectorAll_in_def
        addEventListener_def)

lemma queryAll_initMobileMenu [simp]: "queryAll (initMobileMenu w) = queryAll w"
  by (simp add: initMobileMenu_def split: option.splits)

lemma listeners_initSmoothScroll:
  \<open>listeners (initSmoothScroll w) =
     listeners w @ map (\<lambda>a. (Element a, ''click'', AnchorClick a))
                     (querySelectorAll w ''a[href^="#"]'')\<close>
  by (simp add: initSmoothScroll_def forEach_addEventListener)

lemma keeps_initSmoothScroll: "set (listeners w) \<subseteq> set (listeners (initSmoothScroll w))"
  by (simp add: listeners_initSmoothScroll)

lemma keeps_initActiveNav: "set (listeners w) \<subseteq> set (listeners (initActiveNav w))"
  by (auto simp: initActiveNav_def Let_def intro: forEach_listeners_mono [THEN subsetD])

lemma keeps_initNavbarScroll: "set (listeners w) \<subseteq> set (listeners (initNavbarScroll w))"
  by (auto simp: initNavbarScroll_def navbar_update_def Let_def classList_toggle_force_def
        split: option.splits)

lemma keeps_initReveal: "set (listeners w) \<subseteq> set (listeners (initReveal w))"
  by (auto simp: initReveal_def intro: forEach_listeners_mono [THEN subsetD])

lemma keeps_initParallax: "set (listeners w) \<subseteq> set (listeners (initParallax w))"
  by (auto simp: initParallax_def Let_def)

lemma keeps_initTyping: "set (listeners w) \<subseteq> set (listeners (initTyping w))"
  by (auto simp: initTyping_def Let_def split: option.splits)

lemma keeps_initRipple: "set (listeners w) \<subseteq> set (listeners (initRipple w))"
  by (auto simp: initRipple_def intro: forEach_listeners_mono [THEN subsetD])

lemma keeps_initTilt: "set (listeners w) \<subseteq> set (listeners (initTilt w))"
  by (auto simp: initTilt_def intro: forEach_listeners_mono [THEN subsetD])

lemma keeps_initMagnetic: "set (listeners w) \<subseteq> set (listeners (initMagnetic w))"
  by (auto simp: initMagnetic_def intro: forEach_listeners_mono [THEN subsetD])

lemma keeps_initLazyImages: "set (listeners w) \<subseteq> set (listeners (initLazyImages w))"
  by (auto simp: initLazyImages_def Let_def intro: forEach_listeners_mono [THEN subsetD])

text \<open>What the second initialiser has registered is still registered when the script ends.\<close>

lemma main_keeps_after_smooth:
  "set (listeners (initSmoothScroll (initMobileMenu w))) \<subseteq> set (listeners (main w))"
  unfolding main_def
  by (intro subset_trans [OF _ keeps_initLazyImages] subset_trans [OF _ keeps_initMagnetic]
        subset_trans [OF _ keeps_initTilt] subset_trans [OF _ keeps_initRipple]
        subset_trans [OF _ keeps_initTyping] subset_trans [OF _ keeps_initParallax]
        subset_trans [OF _ keeps_initReveal] subset_trans [OF _ keeps_initNavbarScroll]
        keeps_initActiveNav)

lemma main_keeps_after_menu:
  "set (listeners (initMobileMenu w)) \<subseteq> set (listeners (main w))"
  using keeps_initSmoothScroll [of "initMobileMenu w"] main_keeps_after_smooth [of w] by blast


subsection \<open>Mobile links\<close>

text \<open>
  C7: with the toggle \<open>t\<close> and the menu \<open>m\<close> found, the script registers on every
  \<^verbatim>\<open>.navbar__mobile-link\<close> inside the menu, and on nothing else, a click listener whose
  body is \<open>mobile_link_click t m\<close>; it is still registered when the script ends.
  Whatever the state before, this body leaves \<^verbatim>\<open>aria-expanded\<close> at \<^verbatim>\<open>"false"\<close>, the
  menu hidden and the toggle without \<^verbatim>\<open>is-active\<close>.
\<close>

theorem mobile_link_click_closes:
  "(querySelector w ''.navbar__toggle'' = Some t \<and> getElementById w ''mobile-menu'' = Some m \<longrightarrow>
      listeners (initMobileMenu w) =
        listeners w @ (Element t, ''click'', ToggleClick t m)
          # map (\<lambda>link. (Element link, ''click'', MobileLinkClick t m))
              (querySelectorAll_in w m ''.navbar__mobile-link'')
    \<and> (\<forall>link\<in>set (querySelectorAll_in w m ''.navbar__mobile-link'').
          (Element link, ''click'', MobileLinkClick t m) \<in> set (listeners (main w))))
   \<and> run_handler (MobileLinkClick t m) v = Some (Inr (mobile_link_click t m v))
   \<and> getAttribute (mobile_link_click t m v) t ''aria-expanded'' = Some ''false''
   \<and> hidden (store (mobile_link_click t m v) m)
   \<and> \<not> has_class (mobile_link_click t m v) t ''is-active''"
proof -
  have reg: "listeners (initMobileMenu w) =
        listeners w @ (Element t, ''click'', ToggleClick t m)
          # map (\<lambda>link. (Element link, ''click'', MobileLinkClick t m))
              (querySelectorAll_in w m ''.navbar__mobile-link'')
    \<and> (\<forall>link\<in>set (querySelectorAll_in w m ''.navbar__mobile-link'').
          (Element link, ''click'', MobileLinkClick t m) \<in> set (listeners (main w)))"
    if a: "querySelector w ''.navbar__toggle'' = Some t \<and> getElementById w ''mobile-menu'' = Some m"
  proof -
    note l = listeners_initMobileMenu [of w t m]
    have e: "listeners (initMobileMenu w) =
        listeners w @ (Element t, ''click'', ToggleClick t m)
          # map (\<lambda>link. (Element link, ''click'', MobileLinkClick t m))
              (querySelectorAll_in w m ''.navbar__mobile-link'')"
      using a l by blast
    have "(Element link, ''click'', MobileLinkClick t m) \<in> set (listeners (main w))"
      if "link \<in> set (querySelectorAll_in w m ''.navbar__mobile-link'')" for link
    proof -
      have "(Element link, ''click'', MobileLinkClick t m) \<in> set (listeners (initMobileMenu w))"
        unfolding e using that by simp
      then show ?thesis using main_keeps_after_menu [of w] by blast
    qed
    then show ?thesis using e by blast
  qed
  have closes: "getAttribute (mobile_link_click t m v) t ''aria-expanded'' = Some ''false''
   \<and> hidden (store (mobile_link_click t m v) m)
   \<and> \<not> has_class (mobile_link_click t m v) t ''is-active''"
    by (simp add: mobile_link_click_def Let_def)
  show ?thesis
    using reg closes by simp
qed

theorem mobile_link_click_closes_witness:
  "querySelector links_world ''.navbar__toggle'' = Some 0
   \<and> getElementById links_world ''mobile-menu'' = Some 1
   \<and> querySelectorAll_in links_world 1 ''.navbar__mobile-link'' = [2, 3]
   \<and> listeners (initMobileMenu links_world) =
        [(Element 0, ''click'', ToggleClick 0 1),
         (Element 2, ''click'', MobileLinkClick 0 1),
         (Element 3, ''click'', MobileLinkClick 0 1)]
   \<and> (Element 2, ''click'', MobileLinkClick 0 1) \<in> set (listeners (main links_world))
   \<and> (Element 3, ''click'', MobileLinkClick 0 1) \<in> set (listeners (main links_world))
   \<and> run_handler (MobileLinkClick 0 1) (menu_world (Some ''true'') False [''is-active''])
       = Some (Inr (mobile_link_click 0 1 (menu_world (Some ''true'') False [''is-active''])))
   \<and> getAttribute (mobile_link_click 0 1 (menu_world (Some ''true'') False [''is-active'']))
         0 ''aria-expanded'' = Some ''false''
   \<and> hidden (store (mobile_link_click 0 1 (menu_world (Some ''true'') False [''is-active''])) 1)
   \<and> \<not> has_class (mobile_link_click 0 1 (menu_world (Some ''true'') False [''is-active'']))
         0 ''is-active''"
proof -
  have q: "querySelector links_world ''.navbar__toggle'' = Some 0"
    "getElementById links_world ''mobile-menu'' = Some 1"
    "querySelectorAll_in links_world 1 ''.navbar__mobile-link'' = [2, 3]"
    "listeners links_world = []"
    by (simp_all add: links_world_def blank_world_def blank_element_def querySelector_def
          getElementById_def querySelectorAll_in_def)
  note T = mobile_link_click_closes [of links_world 0 1
      "menu_world (Some ''true'') False [''is-active'']"]
  show ?thesis
    using T q by (simp del: run_handler.simps)
qed

subsection \<open>Smooth scrolling\<close>




subsection \<open>Navbar scroll intensity\<close>

text \<open>
  C2: an update of the navbar at scroll offset \<open>scrollY w\<close> sets \<^verbatim>\<open>--nav-scroll\<close> to
  \<open>clamp (scrollY w / 300) 0 1\<close>, where \<open>clamp v lo hi\<close> is \<open>max lo (min hi v)\<close>: the
  value is the offset divided by 300 between the offsets 0 and 300, 0 below and 1
  above, so never outside 0 to 1; it is 0 at offset 0, 1 from offset 300 on and
  strictly between 0 and 1 for offsets from 51 to 299. Afterwards the navbar has the
  class \<^verbatim>\<open>navbar--scrolled\<close> exactly when the offset exceeds 50.
\<close>

theorem navbar_update_progress:
  "style (store (navbar_update nb w) nb) ''--nav-scroll''
     = Some (CssNumber (clamp (scrollY w / 300) 0 1))
   \<and> style (store (navbar_update nb w) nb) ''--nav-scroll''
     = Some (CssNumber (if scrollY w \<le> 0 then 0 else if 300 \<le> scrollY w then 1
                        else scrollY w / 300))
   \<and> (\<forall>v lo hi. clamp v lo hi = max lo (min hi v))
   \<and> 0 \<le> clamp (scrollY w / 300) 0 1 \<and> clamp (scrollY w / 300) 0 1 \<le> 1
   \<and> (scrollY w = 0 \<longrightarrow> clamp (scrollY w / 300) 0 1 = 0)
   \<and> (300 \<le> scrollY w \<longrightarrow> clamp (scrollY w / 300) 0 1 = 1)
   \<and> (51 \<le> scrollY w \<and> scrollY w \<le> 299
        \<longrightarrow> 0 < clamp (scrollY w / 300) 0 1 \<and> clamp (scrollY w / 300) 0 1 < 1)
   \<and> (has_class (navbar_update nb w) nb ''navbar--scrolled'' = (50 < scrollY w))"
proof -
  have v: "style (store (navbar_update nb w) nb) ''--nav-scroll''
          = Some (CssNumber (clamp (scrollY w / 300) 0 1))"
    by (simp add: navbar_update_def Let_def classList_toggle_force_def)
  have e: "clamp (scrollY w / 300) 0 1
          = (if scrollY w \<le> 0 then 0 else if 300 \<le> scrollY w then 1 else scrollY w / 300)"
    by (simp add: clamp_def max_def min_def)
  have c: "has_class (navbar_update nb w) nb ''navbar--scrolled'' = (50 < scrollY w)"
    by (simp add: navbar_update_def Let_def classList_toggle_force_def)
  have d: "\<forall>v lo hi. clamp v lo hi = max lo (min hi v)"
    by (simp add: clamp_def)
  have b: "0 \<le> clamp (scrollY w / 300) 0 1 \<and> clamp (scrollY w / 300) 0 1 \<le> 1"
    by (simp add: clamp_def)
  have z: "scrollY w = 0 \<longrightarrow> clamp (scrollY w / 300) 0 1 = 0"
    by (simp add: clamp_def)
  have o: "300 \<le> scrollY w \<longrightarrow> clamp (scrollY w / 300) 0 1 = 1"
    by (simp add: clamp_def)
  have m: "51 \<le> scrollY w \<and> scrollY w \<le> 299
        \<longrightarrow> 0 < clamp (scrollY w / 300) 0 1 \<and> clamp (scrollY w / 300) 0 1 < 1"
    by (auto simp: clamp_def)
  have v': "style (store (navbar_update nb w) nb) ''--nav-scroll''
     = Some (CssNumber (if scrollY w \<le> 0 then 0 else if 300 \<le> scrollY w then 1
                        else scrollY w / 300))"
    using v e by simp
  from v v' d b z o m c show ?thesis
    by (intro conjI) (assumption | erule conjunct1 | erule conjunct2)+
qed

theorem navbar_update_progress_witness:
  "scrollY (blank_world\<lparr>scrollY := 0\<rparr>) = 0
   \<and> style (store (navbar_update 0 (blank_world\<lparr>scrollY := 0\<rparr>)) 0) ''--nav-scroll''
       = Some (CssNumber 0)
   \<and> \<not> has_class (navbar_update 0 (blank_world\<lparr>scrollY := 0\<rparr>)) 0 ''navbar--scrolled''
   \<and> 300 \<le> scrollY (blank_world\<lparr>scrollY := 450\<rparr>)
   \<and> style (store (navbar_update 0 (blank_world\<lparr>scrollY := 450\<rparr>)) 0) ''--nav-scroll''
       = Some (CssNumber 1)
   \<and> has_class (navbar_update 0 (blank_world\<lparr>scrollY := 450\<rparr>)) 0 ''navbar--scrolled''
   \<and> 51 \<le> scrollY (blank_world\<lparr>scrollY := 120\<rparr>)
   \<and> scrollY (blank_world\<lparr>scrollY := 120\<rparr>) \<le> 299
   \<and> style (store (navbar_update 0 (blank_world\<lparr>scrollY := 120\<rparr>)) 0) ''--nav-scroll''
       = Some (CssNumber (2 / 5))
   \<and> has_class (navbar_update 0 (blank_world\<lparr>scrollY := 120\<rparr>)) 0 ''navbar--scrolled''
   \<and> style (store (navbar_update 0 (blank_world\<lparr>scrollY := - 20\<rparr>)) 0) ''--nav-scroll''
       = Some (CssNumber 0)
   \<and> \<not> has_class (navbar_update 0 (blank_world\<lparr>scrollY := - 20\<rparr>)) 0 ''navbar--scrolled''
   \<and> clamp (- (1 / 15)) 0 1 = 0"
proof -
  note T0 = navbar_update_progress [of 0 "blank_world\<lparr>scrollY := 0\<rparr>", THEN conjunct2]
  note T1 = navbar_update_progress [of 0 "blank_world\<lparr>scrollY := 450\<rparr>", THEN conjunct2]
  note T2 = navbar_update_progress [of 0 "blank_world\<lparr>scrollY := 120\<rparr>", THEN conjunct2]
  note T3 = navbar_update_progress [of 0 "blank_world\<lparr>scrollY := - 20\<rparr>", THEN conjunct2]
  have c: "clamp (- (1 / 15)) 0 1 = 0"
    using T0 by simp
  show ?thesis
    using T0 T1 T2 T3 c by simp
qed

subsection \<open>Batches that report a target twice\<close>


text \<open>
  C4: every image selected by \<^verbatim>\<open>.project-card__image[data-src]\<close> is to be loaded
  exactly once when the observer reports it intersecting: \<^verbatim>\<open>src\<close> set to the value
  of \<^verbatim>\<open>data-src\<close>, \<^verbatim>\<open>data-src\<close> removed, the image unobserved. The unobserving acts on
  later batches only: on a batch that lists image 5 as intersecting, as not
  intersecting and as intersecting again, the callback loads it a second time, when
  \<^verbatim>\<open>data-src\<close> is gone, and leaves \<^verbatim>\<open>src\<close> at the string \<^verbatim>\<open>undefined\<close>.
\<close>

theorem lazy_repeated_report:
  "5 \<in> set (querySelectorAll lazy_world ''.project-card__image[data-src]'')
   \<and> getAttribute lazy_world 5 ''data-src'' = Some ''a.png''
   \<and> deliverable (initLazyImages lazy_world) LazyObserver (flicker 5)
   \<and> run_batches LazyObserver lazy_callback [flicker 5] (initLazyImages lazy_world)
       = Some (lazy_callback (flicker 5) (initLazyImages lazy_world))
   \<and> calls_since lazy_world (lazy_callback (flicker 5) (initLazyImages lazy_world))
       = [SetAttribute 5 ''src'' ''a.png'', RemoveAttribute 5 ''data-src'',
          SetAttribute 5 ''src'' ''undefined'', RemoveAttribute 5 ''data-src'']
   \<and> getAttribute (lazy_callback (flicker 5) (initLazyImages lazy_world)) 5 ''src''
       = Some ''undefined''"
proof -
  define w0 where "w0 = initLazyImages lazy_world"
  have n: "observers lazy_world LazyObserver = None"
    by (simp add: lazy_world_def blank_world_def)
  have q: "querySelectorAll lazy_world ''.project-card__image[data-src]'' = [5, 6]"
    by (simp add: querySelectorAll_def lazy_world_def blank_world_def)
  have a: "getAttribute lazy_world 5 ''data-src'' = Some ''a.png''"
    by (simp add: getAttribute_def lazy_world_def blank_world_def)
  have o: "set (observed w0 LazyObserver) = {5, 6}"
    unfolding w0_def using initLazyImages_facts(3) [OF n] q by simp
  have s: "store w0 = store lazy_world" and t: "trace w0 = trace lazy_world"
    unfolding w0_def using initLazyImages_facts(1,2) [OF n] by simp_all
  have d: "deliverable w0 LazyObserver (flicker 5)"
    by (simp add: deliverable_def flicker_def o)
  have a0: "getAttribute w0 5 ''data-src'' = Some ''a.png''"
    using a by (simp add: getAttribute_def s)
  have tr: "trace (lazy_callback (flicker 5) w0)
       = trace lazy_world
         @ [SetAttribute 5 ''src'' ''a.png'', RemoveAttribute 5 ''data-src'',
            SetAttribute 5 ''src'' ''undefined'', RemoveAttribute 5 ''data-src'']"
    using a0
    by (simp add: lazy_callback_def flicker_def lazy_entry_def Let_def dataset_src_def
          getAttribute_def t)
  have fin: "getAttribute (lazy_callback (flicker 5) w0) 5 ''src'' = Some ''undefined''"
    using a0
    by (simp add: lazy_callback_def flicker_def lazy_entry_def Let_def dataset_src_def
          getAttribute_def)
  have c: "calls_since lazy_world (lazy_callback (flicker 5) w0)
       = [SetAttribute 5 ''src'' ''a.png'', RemoveAttribute 5 ''data-src'',
          SetAttribute 5 ''src'' ''undefined'', RemoveAttribute 5 ''data-src'']"
    using tr by simp
  show ?thesis
    unfolding w0_def [symmetric] using a d c fin by (simp add: q)
qed

end
